theory Spec2Isabelle
  imports Main "HOL-Library.Multiset"
begin

section \<open>Data model (src/models/event.py, src/models/participant.py)\<close>

text \<open>
  A naive \<^verbatim>\<open>datetime\<close> is a point on one integer time line, counted in microseconds
  (the resolution of Python's datetime); comparing two datetimes compares the integers,
  as the code compares the naive values. Every function that reads the clock takes the
  value it reads as the argument \<open>now\<close>; an operation that reads the clock several times
  in a row (\<^verbatim>\<open>update_status\<close> and \<^verbatim>\<open>update_event\<close> within one counter update) reads the
  same value each time.
\<close>

type_synonym datetime = int

datatype EventStatus = ACTIVE | FULL | CLOSED | CANCELLED | COMPLETED

datatype ParticipantStatus = JOINED | WAITLIST

text \<open>
  The dataclass \<^verbatim>\<open>Event\<close>. The field \<^verbatim>\<open>id\<close> is called \<open>eid\<close> here; it holds the
  document id under which the store keeps the event.
\<close>

record Event =
  title :: string
  description :: string
  game_type :: string
  start_time :: datetime
  max_participants :: int
  creator_id :: string
  creator_name :: string
  guild_id :: string
  channel_id :: string
  game_emoji :: string
  game_icon_url :: "string option"
  message_id :: "string option"
  current_participants :: int
  status :: EventStatus
  reminder_sent :: bool
  created_at :: datetime
  updated_at :: datetime
  eid :: string

text \<open>
  The dataclass \<^verbatim>\<open>Participant\<close>; \<^verbatim>\<open>status\<close> is \<open>pstatus\<close> and \<^verbatim>\<open>id\<close> is \<open>pid\<close>.
\<close>

record Participant =
  event_id :: string
  user_id :: string
  user_name :: string
  pstatus :: ParticipantStatus
  position :: int
  joined_at :: datetime
  pid :: string

subsection \<open>Event.is\_full and Event.update\_status\<close>

definition is_full :: "Event \<Rightarrow> bool" where
  "is_full e = (current_participants e \<ge> max_participants e)"

text \<open>
  \<^verbatim>\<open>update_status\<close>: the if/elif on occupancy, then the separate if on the start time,
  then the time stamp.
\<close>

definition update_status :: "datetime \<Rightarrow> Event \<Rightarrow> Event" where
  "update_status now e =
     (let e1 = (if is_full e \<and> status e = ACTIVE then e\<lparr>status := FULL\<rparr>
                else if \<not> is_full e \<and> status e = FULL then e\<lparr>status := ACTIVE\<rparr>
                else e);
          e2 = (if start_time e1 < now \<and> (status e1 = ACTIVE \<or> status e1 = FULL)
                then e1\<lparr>status := COMPLETED\<rparr> else e1)
      in e2\<lparr>updated_at := now\<rparr>)"

section \<open>The document store (src/services/firestore\_service.py)\<close>

text \<open>
  The two collections are lists of documents in the order in which a query streams them;
  the store promises no particular order. Each document carries its id, as the
  dictionaries returned by \<^verbatim>\<open>get_document\<close> and \<^verbatim>\<open>query_documents\<close> do.
  \<open>writes\<close> logs every mutating call (collection and document id), oldest first, and
  \<open>outbox\<close> the messages handed to the chat platform.

  The store answers every call: outages of the service are outside this model, and the
  \<^verbatim>\<open>except\<close> branches that only catch them have no counterpart here. The one exception
  of the store that depends on its contents, \<^verbatim>\<open>update\<close> of a document that does not
  exist, is modelled, with the result each caller gives in that case.
\<close>

datatype store_write = Created string string | Updated string string | Deleted string string

text \<open>A message to a user or to a channel, with the id of the event it is about.\<close>

datatype notification = DirectMessage string string | ChannelMessage string string

record world =
  events :: "Event list"
  participants :: "Participant list"
  writes :: "store_write list"
  outbox :: "notification list"

text \<open>\<^verbatim>\<open>query_documents\<close>: the filters, then \<^verbatim>\<open>if limit: query.limit(limit)\<close>.\<close>

definition query_documents :: "'a list \<Rightarrow> ('a \<Rightarrow> bool) \<Rightarrow> nat option \<Rightarrow> 'a list" where
  "query_documents docs flt limit =
     (case limit of
        None \<Rightarrow> filter flt docs
      | Some n \<Rightarrow> if n = 0 then filter flt docs else take n (filter flt docs))"

section \<open>Event service (src/services/event\_service.py)\<close>

definition get_event :: "world \<Rightarrow> string \<Rightarrow> Event option" where
  "get_event w i = find (\<lambda>e. eid e = i) (events w)"

text \<open>
  \<^verbatim>\<open>update_event\<close> stamps the event and overwrites every field of its document. The
  store's \<^verbatim>\<open>update\<close> raises when the document does not exist; the service catches that
  and returns False.
\<close>

definition update_event :: "datetime \<Rightarrow> world \<Rightarrow> Event \<Rightarrow> bool \<times> world" where
  "update_event now w e =
     (case get_event w (eid e) of
        None \<Rightarrow> (False, w)
      | Some _ \<Rightarrow>
          (True, w\<lparr>events := map (\<lambda>d. if eid d = eid e then e\<lparr>updated_at := now\<rparr> else d) (events w),
                    writes := writes w @ [Updated ''events'' (eid e)]\<rparr>))"

definition increment_participant_count :: "datetime \<Rightarrow> world \<Rightarrow> string \<Rightarrow> bool \<times> world" where
  "increment_participant_count now w i =
     (case get_event w i of
        None \<Rightarrow> (False, w)
      | Some e \<Rightarrow>
          update_event now w
            (update_status now (e\<lparr>current_participants := current_participants e + 1\<rparr>)))"

definition decrement_participant_count :: "datetime \<Rightarrow> world \<Rightarrow> string \<Rightarrow> bool \<times> world" where
  "decrement_participant_count now w i =
     (case get_event w i of
        None \<Rightarrow> (False, w)
      | Some e \<Rightarrow>
          update_event now w
            (update_status now (e\<lparr>current_participants := max 0 (current_participants e - 1)\<rparr>)))"

text \<open>
  The user-facing reasons are Japanese strings in the source; each is a constructor here.
\<close>

datatype message =
    NoMessage
  | EventNotFound
  | RecruitmentClosed
  | EventCancelled
  | EventCompleted
  | AlreadyParticipating
  | NotParticipating
  | JoinedDirectly string
  | AddedToWaitlist int
  | LeftEvent "string option"

definition can_user_join :: "world \<Rightarrow> string \<Rightarrow> bool \<times> message" where
  "can_user_join w i =
     (case get_event w i of
        None \<Rightarrow> (False, EventNotFound)
      | Some e \<Rightarrow>
          if status e = CLOSED then (False, RecruitmentClosed)
          else if status e = CANCELLED then (False, EventCancelled)
          else if status e = COMPLETED then (False, EventCompleted)
          else (True, NoMessage))"

section \<open>Participant service (src/services/participant\_service.py)\<close>

text \<open>
  \<^verbatim>\<open>get_participants\<close> and \<^verbatim>\<open>get_waitlist\<close> query without an order and sort the answer
  afterwards; Python's sort is stable, as \<open>sort_key\<close> is. The limit is part of the query,
  so it cuts the answer before the sort.
\<close>

definition get_participants :: "world \<Rightarrow> string \<Rightarrow> Participant list" where
  "get_participants w i =
     sort_key joined_at
       (query_documents (participants w) (\<lambda>p. event_id p = i \<and> pstatus p = JOINED) None)"

definition get_waitlist :: "world \<Rightarrow> string \<Rightarrow> nat option \<Rightarrow> Participant list" where
  "get_waitlist w i limit =
     sort_key position
       (query_documents (participants w) (\<lambda>p. event_id p = i \<and> pstatus p = WAITLIST) limit)"

definition get_participant_by_user :: "world \<Rightarrow> string \<Rightarrow> string \<Rightarrow> Participant option" where
  "get_participant_by_user w i u =
     (case query_documents (participants w) (\<lambda>p. event_id p = i \<and> user_id p = u) (Some 1) of
        [] \<Rightarrow> None
      | p # _ \<Rightarrow> Some p)"

definition is_user_participating :: "world \<Rightarrow> string \<Rightarrow> string \<Rightarrow> bool" where
  "is_user_participating w i u = (get_participant_by_user w i u \<noteq> None)"

text \<open>
  The three store calls on the participants collection. \<^verbatim>\<open>create_document\<close> without an id
  lets the store choose one; the id chosen is the argument \<open>new_id\<close>, and \<open>k\<close> is the place
  of the new document in the stream order, which the store chooses as well.
  \<^verbatim>\<open>update_document\<close> raises when the document is missing (the result \<open>None\<close>).
\<close>

definition create_participant :: "world \<Rightarrow> nat \<Rightarrow> Participant \<Rightarrow> world" where
  "create_participant w k p =
     w\<lparr>participants := take k (participants w) @ [p] @ drop k (participants w),
       writes := writes w @ [Created ''participants'' (pid p)]\<rparr>"

definition update_participant :: "world \<Rightarrow> Participant \<Rightarrow> world option" where
  "update_participant w p =
     (if pid p \<in> set (map pid (participants w))
      then Some (w\<lparr>participants := map (\<lambda>d. if pid d = pid p then p else d) (participants w),
                    writes := writes w @ [Updated ''participants'' (pid p)]\<rparr>)
      else None)"

definition delete_participant :: "world \<Rightarrow> string \<Rightarrow> world" where
  "delete_participant w i =
     w\<lparr>participants := filter (\<lambda>d. pid d \<noteq> i) (participants w),
       writes := writes w @ [Deleted ''participants'' i]\<rparr>"

text \<open>\<^verbatim>\<open>enumerate(waitlist, start=1)\<close>.\<close>

fun enumerate_from :: "int \<Rightarrow> 'a list \<Rightarrow> (int \<times> 'a) list" where
  "enumerate_from n [] = []"
| "enumerate_from n (x # xs) = (n, x) # enumerate_from (n + 1) xs"

text \<open>
  The loop of \<^verbatim>\<open>_update_waitlist_positions\<close>: a record is written only when its position
  differs from its index; an exception of the store ends the loop with False and keeps
  the writes already made.
\<close>

fun update_positions_loop :: "world \<Rightarrow> (int \<times> Participant) list \<Rightarrow> bool \<times> world" where
  "update_positions_loop w [] = (True, w)"
| "update_positions_loop w ((index, p) # rest) =
     (if position p \<noteq> index
      then (case update_participant w (p\<lparr>position := index\<rparr>) of
              None \<Rightarrow> (False, w)
            | Some w' \<Rightarrow> update_positions_loop w' rest)
      else update_positions_loop w rest)"

definition update_waitlist_positions :: "world \<Rightarrow> string \<Rightarrow> bool \<times> world" where
  "update_waitlist_positions w i =
     update_positions_loop w (enumerate_from 1 (get_waitlist w i None))"

text \<open>
  \<^verbatim>\<open>_promote_from_waitlist\<close>: the first entry of \<^verbatim>\<open>get_waitlist(event_id, limit=1)\<close>.
  (The attribute \<^verbatim>\<open>updated_at\<close> it sets is no field of the dataclass and is not stored.)
\<close>

definition promote_first_from_waitlist :: "datetime \<Rightarrow> world \<Rightarrow> string \<Rightarrow> string option \<times> world" where
  "promote_first_from_waitlist now w i =
     (case get_waitlist w i (Some 1) of
        [] \<Rightarrow> (None, w)
      | first_in_line # _ \<Rightarrow>
          (case update_participant w (first_in_line\<lparr>pstatus := JOINED, position := 0\<rparr>) of
             None \<Rightarrow> (None, w)
           | Some w1 \<Rightarrow>
               let w2 = snd (increment_participant_count now w1 i);
                   w3 = snd (update_waitlist_positions w2 i)
               in (Some (user_id first_in_line), w3)))"

definition promote_from_waitlist :: "datetime \<Rightarrow> world \<Rightarrow> string \<Rightarrow> string \<Rightarrow> bool \<times> world" where
  "promote_from_waitlist now w i u =
     (case get_participant_by_user w i u of
        None \<Rightarrow> (False, w)
      | Some p \<Rightarrow>
          if pstatus p \<noteq> WAITLIST then (False, w)
          else (case update_participant w (p\<lparr>pstatus := JOINED, position := 0\<rparr>) of
                  None \<Rightarrow> (False, w)
                | Some w1 \<Rightarrow>
                    let w2 = snd (increment_participant_count now w1 i);
                        w3 = snd (update_waitlist_positions w2 i)
                    in (True, w3)))"

definition demote_to_waitlist :: "datetime \<Rightarrow> world \<Rightarrow> string \<Rightarrow> string \<Rightarrow> bool \<times> world" where
  "demote_to_waitlist now w i u =
     (case get_participant_by_user w i u of
        None \<Rightarrow> (False, w)
      | Some p \<Rightarrow>
          if pstatus p \<noteq> JOINED then (False, w)
          else (let new_position = int (length (get_waitlist w i None)) + 1 in
                case update_participant w (p\<lparr>pstatus := WAITLIST, position := new_position\<rparr>) of
                  None \<Rightarrow> (False, w)
                | Some w1 \<Rightarrow> (True, snd (decrement_participant_count now w1 i))))"

text \<open>
  \<^verbatim>\<open>join_event\<close> returns (success, message, participant). The participant is built with
  \<^verbatim>\<open>joined_at = utcnow()\<close> and receives the id the store gave it.
\<close>

definition join_event ::
  "datetime \<Rightarrow> world \<Rightarrow> string \<Rightarrow> string \<Rightarrow> string \<Rightarrow> string \<Rightarrow> nat \<Rightarrow>
     (bool \<times> message \<times> Participant option) \<times> world" where
  "join_event now w i u name new_id k =
     (case get_event w i of
        None \<Rightarrow> ((False, EventNotFound, None), w)
      | Some event \<Rightarrow>
          (case can_user_join w i of
             (False, reason) \<Rightarrow> ((False, reason, None), w)
           | (True, _) \<Rightarrow>
               if is_user_participating w i u then ((False, AlreadyParticipating, None), w)
               else
                 (let current_count = int (length (get_participants w i));
                      new_position = int (length (get_waitlist w i None)) + 1;
                      p = (if current_count < max_participants event
                           then \<lparr>event_id = i, user_id = u, user_name = name, pstatus = JOINED,
                                 position = 0, joined_at = now, pid = new_id\<rparr>
                           else \<lparr>event_id = i, user_id = u, user_name = name, pstatus = WAITLIST,
                                 position = new_position, joined_at = now, pid = new_id\<rparr>);
                      msg = (if current_count < max_participants event
                             then JoinedDirectly (title event)
                             else AddedToWaitlist new_position);
                      w1 = create_participant w k p;
                      w2 = (if pstatus p = JOINED
                            then snd (increment_participant_count now w1 i) else w1)
                  in ((True, msg, Some p), w2))))"

text \<open>
  \<^verbatim>\<open>leave_event\<close> returns (success, message, promoted\_user\_id). The message names the
  event's title, or a generic word when the event is gone (\<open>LeftEvent None\<close>).
\<close>

definition leave_event ::
  "datetime \<Rightarrow> world \<Rightarrow> string \<Rightarrow> string \<Rightarrow> (bool \<times> message \<times> string option) \<times> world" where
  "leave_event now w i u =
     (case get_participant_by_user w i u of
        None \<Rightarrow> ((False, NotParticipating, None), w)
      | Some p \<Rightarrow>
          (let w1 = delete_participant w (pid p);
               (promoted_user_id, w2) =
                 (if pstatus p = JOINED
                  then promote_first_from_waitlist now
                         (snd (decrement_participant_count now w1 i)) i
                  else (None, snd (update_waitlist_positions w1 i)))
           in ((True, LeftEvent (map_option title (get_event w2 i)), promoted_user_id), w2)))"

section \<open>Capacity changes (EventManager.\_handle\_capacity\_change)\<close>

fun promote_loop :: "datetime \<Rightarrow> world \<Rightarrow> string \<Rightarrow> string list \<Rightarrow> world" where
  "promote_loop now w i [] = w"
| "promote_loop now w i (u # us) = promote_loop now (snd (promote_from_waitlist now w i u)) i us"

fun demote_loop :: "datetime \<Rightarrow> world \<Rightarrow> string \<Rightarrow> string list \<Rightarrow> world" where
  "demote_loop now w i [] = w"
| "demote_loop now w i (u # us) = demote_loop now (snd (demote_to_waitlist now w i u)) i us"

text \<open>
  \<^verbatim>\<open>sorted(participants, key=joined_at, reverse=True)\<close> is a stable sort in descending
  order: records with equal keys keep their order. On integer keys that is the stable
  ascending sort by the negated key.
\<close>

definition sorted_joined_at_reverse :: "Participant list \<Rightarrow> Participant list" where
  "sorted_joined_at_reverse ps = sort_key (\<lambda>p. - joined_at p) ps"

text \<open>
  The event passed in already holds the new capacity and is not stored yet; the function
  returns it with \<open>current_participants\<close> recounted.
\<close>

definition handle_capacity_change :: "datetime \<Rightarrow> world \<Rightarrow> Event \<Rightarrow> int \<Rightarrow> Event \<times> world" where
  "handle_capacity_change now w event old_max_participants =
     (let new_max = max_participants event;
          ps = get_participants w (eid event);
          waitlist = get_waitlist w (eid event) None;
          current_count = int (length ps);
          w' =
            (if new_max > old_max_participants then
               (let available_spots = new_max - current_count in
                if available_spots > 0 \<and> waitlist \<noteq> [] then
                  (let to_promote = min available_spots (int (length waitlist)) in
                   promote_loop now w (eid event) (map user_id (take (nat to_promote) waitlist)))
                else w)
             else if new_max < old_max_participants then
               (if current_count > new_max then
                  (let excess_count = current_count - new_max;
                       participants_sorted = sorted_joined_at_reverse ps
                   in demote_loop now w (eid event)
                        (map user_id (take (nat excess_count) participants_sorted)))
                else w)
             else w)
      in (event\<lparr>current_participants := int (length (get_participants w' (eid event)))\<rparr>, w'))"

section \<open>Lifecycle scanner (src/cogs/notification\_manager.py, src/utils/datetime\_utils.py)\<close>

text \<open>\<^verbatim>\<open>timedelta(minutes=m)\<close> in microseconds.\<close>

definition timedelta_minutes :: "int \<Rightarrow> int" where
  "timedelta_minutes m = m * 60000000"

definition get_reminder_time :: "datetime \<Rightarrow> int \<Rightarrow> datetime" where
  "get_reminder_time event_time minutes_before = event_time - timedelta_minutes minutes_before"

definition should_send_reminder :: "datetime \<Rightarrow> datetime \<Rightarrow> bool \<Rightarrow> int \<Rightarrow> bool" where
  "should_send_reminder now event_time sent minutes_before =
     (if sent then False
      else now \<ge> get_reminder_time event_time minutes_before \<and> now < event_time)"

text \<open>\<^verbatim>\<open>get_all_events\<close>: the events of a guild, ordered by creation time.\<close>

definition get_all_events :: "world \<Rightarrow> string \<Rightarrow> Event list" where
  "get_all_events w g = sort_key created_at (query_documents (events w) (\<lambda>e. guild_id e = g) None)"

text \<open>
  \<^verbatim>\<open>_send_reminder\<close>. Whether a message reaches a user or the channel is decided outside
  the program (\<open>deliver\<close>); \<open>outbox\<close> keeps the messages that went out. In either branch the
  event is marked and stored.
\<close>

definition send_reminder :: "datetime \<Rightarrow> (notification \<Rightarrow> bool) \<Rightarrow> world \<Rightarrow> Event \<Rightarrow> world" where
  "send_reminder now deliver w event =
     (let ps = get_participants w (eid event) in
      if ps = [] then snd (update_event now w (event\<lparr>reminder_sent := True\<rparr>))
      else
        (let dms = filter deliver (map (\<lambda>p. DirectMessage (user_id p) (eid event)) ps);
             ch = filter deliver [ChannelMessage (channel_id event) (eid event)];
             w1 = w\<lparr>outbox := outbox w @ dms @ ch\<rparr>
         in snd (update_event now w1 (event\<lparr>reminder_sent := True\<rparr>))))"

text \<open>The body of the inner loop of \<^verbatim>\<open>check_reminders\<close>, for one event of the list read.\<close>

definition check_reminder_event ::
  "datetime \<Rightarrow> int \<Rightarrow> (notification \<Rightarrow> bool) \<Rightarrow> world \<Rightarrow> Event \<Rightarrow> world" where
  "check_reminder_event now reminder_minutes deliver w event =
     (if reminder_sent event then w
      else if \<not> (status event = ACTIVE \<or> status event = FULL \<or> status event = CLOSED) then w
      else if should_send_reminder now (start_time event) (reminder_sent event) reminder_minutes
      then send_reminder now deliver w event
      else w)"

text \<open>
  \<^verbatim>\<open>check_reminders\<close>: for each guild, read its events, then visit each of them. The
  clock moves while the sweep runs: \<open>clock g event\<close> is the time it shows when the sweep
  of guild \<open>g\<close> reaches \<open>event\<close>.
\<close>

definition check_reminders ::
  "(string \<Rightarrow> Event \<Rightarrow> datetime) \<Rightarrow> int \<Rightarrow> (notification \<Rightarrow> bool) \<Rightarrow> string list \<Rightarrow> world \<Rightarrow> world" where
  "check_reminders clock reminder_minutes deliver guilds w =
     fold (\<lambda>g w'. fold (\<lambda>event w''. check_reminder_event (clock g event) reminder_minutes deliver w'' event)
                        (get_all_events w' g) w')
          guilds w"

text \<open>The body of the loop of \<^verbatim>\<open>check_completed_events\<close>, and the sweep.\<close>

definition check_completed_event :: "datetime \<Rightarrow> world \<Rightarrow> Event \<Rightarrow> world" where
  "check_completed_event now w event =
     (if status event = COMPLETED \<or> status event = CANCELLED then w
      else if start_time event < now
      then snd (update_event now w (event\<lparr>status := COMPLETED\<rparr>))
      else w)"

definition check_completed_events :: "(string \<Rightarrow> Event \<Rightarrow> datetime) \<Rightarrow> string list \<Rightarrow> world \<Rightarrow> world" where
  "check_completed_events clock guilds w =
     fold (\<lambda>g w'. fold (\<lambda>event w''. check_completed_event (clock g event) w'' event)
                        (get_all_events w' g) w')
          guilds w"

text \<open>
  Reminder sweeps run one after the other, each with its clock, its window, its
  deliveries and the guilds the bot is in at that time.
\<close>

type_synonym reminder_sweep =
  "(string \<Rightarrow> Event \<Rightarrow> datetime) \<times> int \<times> (notification \<Rightarrow> bool) \<times> string list"

fun run_reminder_sweeps :: "reminder_sweep list \<Rightarrow> world \<Rightarrow> world" where
  "run_reminder_sweeps [] w = w"
| "run_reminder_sweeps ((clock, reminder_minutes, deliver, guilds) # rest) w =
     run_reminder_sweeps rest (check_reminders clock reminder_minutes deliver guilds w)"

text \<open>The event a message is about.\<close>

fun notification_event :: "notification \<Rightarrow> string" where
  "notification_event (DirectMessage u i) = i"
| "notification_event (ChannelMessage c i) = i"

definition reminders_about :: "string \<Rightarrow> world \<Rightarrow> notification list" where
  "reminders_about i w = filter (\<lambda>n. notification_event n = i) (outbox w)"

section \<open>The specification's words, and sample data\<close>

text \<open>
  The transition function \<^verbatim>\<open>recompute_status\<close> as the specification words it, on the four
  values it reads.
\<close>

definition recompute_status_spec ::
  "datetime \<Rightarrow> datetime \<Rightarrow> int \<Rightarrow> int \<Rightarrow> EventStatus \<Rightarrow> EventStatus" where
  "recompute_status_spec now start current capacity s =
     (let s1 = (if current \<ge> capacity \<and> s = ACTIVE then FULL
                else if current < capacity \<and> s = FULL then ACTIVE
                else s)
      in if start < now \<and> (s1 = ACTIVE \<or> s1 = FULL) then COMPLETED else s1)"

text \<open>Sequences of counter operations on one event, each with the time it runs at.\<close>

datatype counter_op = Increment | Decrement

fun apply_counter_ops :: "world \<Rightarrow> string \<Rightarrow> (counter_op \<times> datetime) list \<Rightarrow> world" where
  "apply_counter_ops w i [] = w"
| "apply_counter_ops w i ((Increment, now) # ops) =
     apply_counter_ops (snd (increment_participant_count now w i)) i ops"
| "apply_counter_ops w i ((Decrement, now) # ops) =
     apply_counter_ops (snd (decrement_participant_count now w i)) i ops"

fun counter_step :: "int \<Rightarrow> counter_op \<Rightarrow> int" where
  "counter_step c Increment = c + 1"
| "counter_step c Decrement = max 0 (c - 1)"

text \<open>The participant record \<^verbatim>\<open>join_event\<close> builds.\<close>

definition new_participant ::
  "string \<Rightarrow> string \<Rightarrow> string \<Rightarrow> ParticipantStatus \<Rightarrow> int \<Rightarrow> datetime \<Rightarrow> string \<Rightarrow> Participant" where
  "new_participant i u name s pos now nid =
     \<lparr>event_id = i, user_id = u, user_name = name, pstatus = s, position = pos,
      joined_at = now, pid = nid\<rparr>"

text \<open>An event for two players and four users, used to run the operations on.\<close>

definition game_night :: Event where
  "game_night =
     \<lparr>title = ''Game night'', description = ''Ranked'', game_type = ''valorant'',
      start_time = 1000, max_participants = 2, creator_id = ''900'', creator_name = ''host'',
      guild_id = ''g1'', channel_id = ''c1'', game_emoji = ''G'', game_icon_url = None,
      message_id = None, current_participants = 0, status = ACTIVE, reminder_sent = False,
      created_at = 0, updated_at = 0, eid = ''e1''\<rparr>"

definition alice :: Participant where
  "alice = \<lparr>event_id = ''e1'', user_id = ''101'', user_name = ''alice'', pstatus = JOINED,
            position = 0, joined_at = 10, pid = ''p7''\<rparr>"

definition bob :: Participant where
  "bob = \<lparr>event_id = ''e1'', user_id = ''102'', user_name = ''bob'', pstatus = JOINED,
          position = 0, joined_at = 20, pid = ''p3''\<rparr>"

definition carol :: Participant where
  "carol = \<lparr>event_id = ''e1'', user_id = ''103'', user_name = ''carol'', pstatus = WAITLIST,
            position = 1, joined_at = 30, pid = ''p9''\<rparr>"

definition dave :: Participant where
  "dave = \<lparr>event_id = ''e1'', user_id = ''104'', user_name = ''dave'', pstatus = WAITLIST,
           position = 2, joined_at = 40, pid = ''p1''\<rparr>"

definition empty_world :: world where
  "empty_world = \<lparr>events = [game_night], participants = [], writes = [], outbox = []\<rparr>"

definition full_world :: world where
  "full_world =
     \<lparr>events = [game_night\<lparr>current_participants := 2, status := FULL\<rparr>],
      participants = [alice, bob, carol], writes = [], outbox = []\<rparr>"

definition game_night_full :: Event where
  "game_night_full = game_night\<lparr>current_participants := 2, status := FULL\<rparr>"

text \<open>
  The world after four joins. The store places carol's document last and dave's first in
  its stream order.
\<close>

definition waiting_world :: world where
  "waiting_world =
     snd (join_event 40
       (snd (join_event 30
         (snd (join_event 20
           (snd (join_event 10 empty_world ''e1'' ''101'' ''alice'' ''p7'' 0))
           ''e1'' ''102'' ''bob'' ''p3'' 0))
         ''e1'' ''103'' ''carol'' ''p9'' 2))
       ''e1'' ''104'' ''dave'' ''p1'' 0)"

text \<open>
  Names for the resequencing: the waitlist with positions 1, 2, ... written in, the record
  a document becomes under a list of (index, record) assignments, the records of an
  event's waitlist, and the writes the loop makes.
\<close>

definition renumber :: "Participant list \<Rightarrow> Participant list" where
  "renumber xs = map (\<lambda>(n, p). p\<lparr>position := n\<rparr>) (enumerate_from 1 xs)"

definition new_pos :: "(int \<times> Participant) list \<Rightarrow> Participant \<Rightarrow> Participant" where
  "new_pos L d = (case map_of (map (\<lambda>(n, p). (pid p, n)) L) (pid d) of
                    None \<Rightarrow> d | Some n \<Rightarrow> d\<lparr>position := n\<rparr>)"

definition on_waitlist :: "string \<Rightarrow> Participant \<Rightarrow> bool" where
  "on_waitlist i p = (event_id p = i \<and> pstatus p = WAITLIST)"

definition changed_writes :: "(int \<times> Participant) list \<Rightarrow> store_write list" where
  "changed_writes L = map (\<lambda>(n, p). Updated ''participants'' (pid p)) (filter (\<lambda>(n, p). position p \<noteq> n) L)"

text \<open>A waitlist with a gap: dave at position 1, carol at position 3.\<close>

definition gap_world :: world where
  "gap_world =
     \<lparr>events = [game_night_full],
      participants = [carol\<lparr>position := 3\<rparr>, bob, dave\<lparr>position := 1\<rparr>],
      writes = [], outbox = []\<rparr>"

text \<open>
  Names for the capacity reconciliation: the JOINED records of an event, the store
  invariant that a user has at most one record per event, and a record after promotion.
\<close>

definition on_joined :: "string \<Rightarrow> Participant \<Rightarrow> bool" where
  "on_joined i p = (event_id p = i \<and> pstatus p = JOINED)"

definition one_record_per_user :: "world \<Rightarrow> bool" where
  "one_record_per_user w = distinct (map (\<lambda>p. (event_id p, user_id p)) (participants w))"

definition promoted :: "Participant \<Rightarrow> Participant" where
  "promoted p = p\<lparr>pstatus := JOINED, position := 0\<rparr>"

text \<open>
  A fifth user, and a store with two joined users and a waitlist of three, streamed in
  no particular order.
\<close>

definition erin :: Participant where
  "erin = \<lparr>event_id = ''e1'', user_id = ''105'', user_name = ''erin'', pstatus = WAITLIST,
           position = 3, joined_at = 50, pid = ''p5''\<rparr>"

definition crowded_world :: world where
  "crowded_world =
     \<lparr>events = [game_night_full],
      participants = [erin, carol, alice, dave, bob],
      writes = [], outbox = []\<rparr>"

text \<open>
  A record after demotion to position \<open>n\<close>, and a list of records demoted one after the
  other to the positions \<open>n\<close>, \<open>n + 1\<close>, ...
\<close>

definition demoted :: "int \<Rightarrow> Participant \<Rightarrow> Participant" where
  "demoted n p = p\<lparr>pstatus := WAITLIST, position := n\<rparr>"

definition demoted_from :: "int \<Rightarrow> Participant list \<Rightarrow> Participant list" where
  "demoted_from n ps = map (\<lambda>(k, p). demoted k p) (enumerate_from n ps)"

text \<open>Three joined users (alice, bob, then carol) and dave waiting.\<close>

definition trio_world :: world where
  "trio_world =
     \<lparr>events = [game_night\<lparr>max_participants := 3, current_participants := 3, status := FULL\<rparr>],
      participants = [promoted carol, dave\<lparr>position := 1\<rparr>, alice, bob],
      writes = [], outbox = []\<rparr>"

section \<open>Facts about the store and the event service\<close>

lemmas fixture_defs = game_night_def empty_world_def full_world_def alice_def bob_def carol_def
  dave_def new_participant_def

lemma get_event_eid: "get_event w i = Some e \<Longrightarrow> eid e = i"
  unfolding get_event_def by (auto dest: find_Some_iff[THEN iffD1])

lemma find_map_replace:
  "find (\<lambda>e. eid e = i) es = Some e \<Longrightarrow> eid e' = i \<Longrightarrow>
   find (\<lambda>e. eid e = i) (map (\<lambda>d. if eid d = i then e' else d) es) = Some e'"
  by (induction es) (auto split: if_splits)

lemma find_map_other:
  "j \<noteq> i \<Longrightarrow> eid e' = i \<Longrightarrow>
   find (\<lambda>e. eid e = j) (map (\<lambda>d. if eid d = i then e' else d) es) = find (\<lambda>e. eid e = j) es"
  by (induction es) (auto split: if_splits)

lemma update_event_stored:
  "get_event w (eid e') = Some e \<Longrightarrow>
   update_event now w e' =
     (True, w\<lparr>events := map (\<lambda>d. if eid d = eid e' then e'\<lparr>updated_at := now\<rparr> else d) (events w),
              writes := writes w @ [Updated ''events'' (eid e')]\<rparr>)"
  by (simp add: update_event_def)

lemma get_event_update_event:
  "get_event w (eid e') = Some e \<Longrightarrow>
   get_event (snd (update_event now w e')) (eid e') = Some (e'\<lparr>updated_at := now\<rparr>)"
  by (simp add: update_event_stored) (simp add: get_event_def find_map_replace)

lemma update_event_participants [simp]:
  "participants (snd (update_event now w e)) = participants w"
  by (simp add: update_event_def split: option.splits)

lemma update_event_outbox [simp]:
  "outbox (snd (update_event now w e)) = outbox w"
  by (simp add: update_event_def split: option.splits)

lemma eid_update_status [simp]: "eid (update_status now e) = eid e"
  by (simp add: update_status_def Let_def)

lemma current_update_status [simp]:
  "current_participants (update_status now e) = current_participants e"
  by (simp add: update_status_def Let_def)

lemma get_event_increment:
  "get_event w i = Some e \<Longrightarrow>
   get_event (snd (increment_participant_count now w i)) i =
     Some ((update_status now (e\<lparr>current_participants := current_participants e + 1\<rparr>))\<lparr>updated_at := now\<rparr>)"
  using get_event_update_event[of w "update_status now (e\<lparr>current_participants := current_participants e + 1\<rparr>)" e now]
  by (simp add: increment_participant_count_def get_event_eid)

lemma get_event_decrement:
  "get_event w i = Some e \<Longrightarrow>
   get_event (snd (decrement_participant_count now w i)) i =
     Some ((update_status now (e\<lparr>current_participants := max 0 (current_participants e - 1)\<rparr>))\<lparr>updated_at := now\<rparr>)"
  using get_event_update_event[of w "update_status now (e\<lparr>current_participants := max 0 (current_participants e - 1)\<rparr>)" e now]
  by (simp add: decrement_participant_count_def get_event_eid)

lemma increment_participants [simp]:
  "participants (snd (increment_participant_count now w i)) = participants w"
  by (simp add: increment_participant_count_def split: option.splits)

lemma decrement_participants [simp]:
  "participants (snd (decrement_participant_count now w i)) = participants w"
  by (simp add: decrement_participant_count_def split: option.splits)

lemma get_event_create_participant [simp]:
  "get_event (create_participant w k p) i = get_event w i"
  by (simp add: get_event_def create_participant_def)

lemma participants_create_participant [simp]:
  "participants (create_participant w k p) = take k (participants w) @ [p] @ drop k (participants w)"
  by (simp add: create_participant_def)

lemma events_create_participant [simp]:
  "events (create_participant w k p) = events w"
  by (simp add: create_participant_def)

lemma head_filter_find:
  "(case filter P xs of [] \<Rightarrow> None | p # _ \<Rightarrow> Some p) = find P xs"
  by (induction xs) auto

lemma head_take_1:
  "(case take (Suc 0) xs of [] \<Rightarrow> None | p # _ \<Rightarrow> Some p) = (case xs of [] \<Rightarrow> None | p # _ \<Rightarrow> Some p)"
  by (cases xs) auto

lemma get_participant_by_user_find:
  "get_participant_by_user w i u = find (\<lambda>p. event_id p = i \<and> user_id p = u) (participants w)"
  by (simp add: get_participant_by_user_def query_documents_def head_take_1 head_filter_find)

lemma get_participant_by_user_None:
  "(get_participant_by_user w i u = None) = (\<not> (\<exists>p \<in> set (participants w). event_id p = i \<and> user_id p = u))"
  by (auto simp: get_participant_by_user_find find_None_iff)

lemma is_user_participating_iff:
  "is_user_participating w i u = (\<exists>p \<in> set (participants w). event_id p = i \<and> user_id p = u)"
  by (simp add: is_user_participating_def get_participant_by_user_None)

lemma can_user_join_status:
  "get_event w i = Some e \<Longrightarrow>
   can_user_join w i =
     (if status e = CLOSED then (False, RecruitmentClosed)
      else if status e = CANCELLED then (False, EventCancelled)
      else if status e = COMPLETED then (False, EventCompleted)
      else (True, NoMessage))"
  by (simp add: can_user_join_def)

lemma join_event_blocked:
  "get_event w i = Some e \<Longrightarrow> can_user_join w i = (False, r) \<Longrightarrow>
   join_event now w i u name nid k = ((False, r, None), w)"
  by (simp add: join_event_def)

lemma join_event_existing:
  "get_event w i = Some e \<Longrightarrow> can_user_join w i = (True, r) \<Longrightarrow> is_user_participating w i u \<Longrightarrow>
   join_event now w i u name nid k = ((False, AlreadyParticipating, None), w)"
  by (simp add: join_event_def)

lemma join_event_direct:
  "get_event w i = Some e \<Longrightarrow> can_user_join w i = (True, r) \<Longrightarrow> \<not> is_user_participating w i u \<Longrightarrow>
   int (length (get_participants w i)) < max_participants e \<Longrightarrow>
   p = \<lparr>event_id = i, user_id = u, user_name = name, pstatus = JOINED,
        position = 0, joined_at = now, pid = nid\<rparr> \<Longrightarrow>
   join_event now w i u name nid k =
     ((True, JoinedDirectly (title e), Some p),
      snd (increment_participant_count now (create_participant w k p) i))"
  by (simp add: join_event_def Let_def)

lemma join_event_waitlist:
  "get_event w i = Some e \<Longrightarrow> can_user_join w i = (True, r) \<Longrightarrow> \<not> is_user_participating w i u \<Longrightarrow>
   \<not> int (length (get_participants w i)) < max_participants e \<Longrightarrow>
   p = \<lparr>event_id = i, user_id = u, user_name = name, pstatus = WAITLIST,
        position = int (length (get_waitlist w i None)) + 1, joined_at = now, pid = nid\<rparr> \<Longrightarrow>
   join_event now w i u name nid k =
     ((True, AddedToWaitlist (int (length (get_waitlist w i None)) + 1), Some p),
      create_participant w k p)"
  by (simp add: join_event_def Let_def)

lemma length_get_participants:
  "length (get_participants w i) = length (filter (\<lambda>p. event_id p = i \<and> pstatus p = JOINED) (participants w))"
  by (simp add: get_participants_def query_documents_def)

lemma length_get_waitlist:
  "length (get_waitlist w i None) = length (filter (\<lambda>p. event_id p = i \<and> pstatus p = WAITLIST) (participants w))"
  by (simp add: get_waitlist_def query_documents_def)

section \<open>The status transition function\<close>

text \<open>
  C2. For every event, \<^verbatim>\<open>update_status\<close> (the specification's \<^verbatim>\<open>recompute_status\<close>)
  computes the three-step transition: ACTIVE at or over capacity becomes FULL, else FULL
  under capacity becomes ACTIVE; then ACTIVE or FULL with the start time in the past
  becomes COMPLETED. A CLOSED or CANCELLED event keeps its status and every other field;
  the function only stamps \<open>updated_at\<close>.
\<close>

theorem update_status_transition:
  "status (update_status now e) =
     recompute_status_spec now (start_time e) (current_participants e) (max_participants e) (status e)
   \<and> (status e = CLOSED \<or> status e = CANCELLED \<longrightarrow>
        status (update_status now e) = status e \<and> update_status now e = e\<lparr>updated_at := now\<rparr>)"
  by (auto simp: update_status_def recompute_status_spec_def is_full_def Let_def)

theorem update_status_transition_witness:
  "status (game_night\<lparr>status := CLOSED\<rparr>) = CLOSED
   \<and> status (update_status 5000 (game_night\<lparr>status := CLOSED\<rparr>)) = CLOSED
   \<and> status (update_status 500 (game_night\<lparr>current_participants := 2\<rparr>)) = FULL
   \<and> status (update_status 500 (game_night\<lparr>current_participants := 1, status := FULL\<rparr>)) = ACTIVE
   \<and> status (update_status 5000 (game_night\<lparr>current_participants := 2, status := FULL\<rparr>)) = COMPLETED"
  using update_status_transition[of 5000 "game_night\<lparr>status := CLOSED\<rparr>"]
        update_status_transition[of 500 "game_night\<lparr>current_participants := 2\<rparr>"]
        update_status_transition[of 500 "game_night\<lparr>current_participants := 1, status := FULL\<rparr>"]
        update_status_transition[of 5000 "game_night\<lparr>current_participants := 2, status := FULL\<rparr>"]
  by (simp add: game_night_def recompute_status_spec_def)

section \<open>The joined counter\<close>

lemma counter_step_nonneg: "0 \<le> c \<Longrightarrow> 0 \<le> foldl counter_step c ops"
proof (induction ops arbitrary: c)
  case Nil
  then show ?case by simp
next
  case (Cons op ops)
  have "0 \<le> counter_step c op" using Cons.prems by (cases op) simp_all
  then show ?case using Cons.IH by simp
qed

lemma apply_counter_ops_value:
  "get_event w i = Some e \<Longrightarrow>
   \<exists>e'. get_event (apply_counter_ops w i ops) i = Some e'
      \<and> current_participants e' = foldl counter_step (current_participants e) (map fst ops)"
proof (induction w i ops arbitrary: e rule: apply_counter_ops.induct)
  case (1 w i)
  then show ?case by simp
next
  case (2 w i now ops)
  from 2(2) have "get_event (snd (increment_participant_count now w i)) i =
     Some ((update_status now (e\<lparr>current_participants := current_participants e + 1\<rparr>))\<lparr>updated_at := now\<rparr>)"
    by (rule get_event_increment)
  from 2(1)[OF this] show ?case by simp
next
  case (3 w i now ops)
  from 3(2) have "get_event (snd (decrement_participant_count now w i)) i =
     Some ((update_status now (e\<lparr>current_participants := max 0 (current_participants e - 1)\<rparr>))\<lparr>updated_at := now\<rparr>)"
    by (rule get_event_decrement)
  from 3(1)[OF this] show ?case by simp
qed

text \<open>
  C9. \<^verbatim>\<open>decrement_participant_count\<close> stores max(0, current - 1), and after any sequence
  of increments and decrements on an event whose counter is not negative the stored
  counter is the sequence's clamped sum and is not negative, however many decrements
  there are.
\<close>

theorem counter_never_negative:
  assumes "get_event w i = Some e" and "0 \<le> current_participants e"
  shows "(\<exists>e'. get_event (snd (decrement_participant_count now w i)) i = Some e'
            \<and> current_participants e' = max 0 (current_participants e - 1))
       \<and> (\<exists>e'. get_event (apply_counter_ops w i ops) i = Some e'
            \<and> current_participants e' = foldl counter_step (current_participants e) (map fst ops)
            \<and> 0 \<le> current_participants e')"
  using assms get_event_decrement[of w i e now] apply_counter_ops_value[of w i e ops]
    counter_step_nonneg[of "current_participants e" "map fst ops"]
  by auto

theorem counter_never_negative_witness:
  "get_event empty_world ''e1'' = Some game_night \<and> 0 \<le> current_participants game_night
   \<and> (\<exists>e'. get_event (snd (decrement_participant_count 10 empty_world ''e1'')) ''e1'' = Some e'
            \<and> current_participants e' = 0)
   \<and> (\<exists>e'. get_event (apply_counter_ops empty_world ''e1''
                 [(Decrement, 10), (Decrement, 11), (Increment, 12), (Decrement, 13), (Decrement, 14)])
               ''e1'' = Some e'
            \<and> current_participants e' = 0)"
proof -
  have h1: "get_event empty_world ''e1'' = Some game_night"
    by (simp add: get_event_def empty_world_def game_night_def)
  have h2: "0 \<le> current_participants game_night" by (simp add: game_night_def)
  have v: "foldl counter_step (current_participants game_night)
             (map fst [(Decrement, 10), (Decrement, 11), (Increment, 12), (Decrement, 13), (Decrement, 14)]) = 0"
    by (simp add: game_night_def)
  have d: "max 0 (current_participants game_night - 1) = 0" by (simp add: game_night_def)
  from counter_never_negative[OF h1 h2, of 10
      "[(Decrement, 10), (Decrement, 11), (Increment, 12), (Decrement, 13), (Decrement, 14)]"]
  show ?thesis unfolding v d using h1 h2 by blast
qed

section \<open>Joining an event\<close>

lemma join_event_cases:
  assumes "get_event w i = Some e" and "status e = ACTIVE \<or> status e = FULL"
  shows "((\<exists>p \<in> set (participants w). event_id p = i \<and> user_id p = u) \<longrightarrow>
            join_event now w i u name nid k = ((False, AlreadyParticipating, None), w))
       \<and> (\<not> (\<exists>p \<in> set (participants w). event_id p = i \<and> user_id p = u)
            \<and> int (length (get_participants w i)) < max_participants e \<longrightarrow>
            (\<exists>w' e'. join_event now w i u name nid k =
                      ((True, JoinedDirectly (title e), Some (new_participant i u name JOINED 0 now nid)), w')
                \<and> participants w' = take k (participants w)
                      @ [new_participant i u name JOINED 0 now nid] @ drop k (participants w)
                \<and> get_event w' i = Some e'
                \<and> current_participants e' = current_participants e + 1))
       \<and> (\<not> (\<exists>p \<in> set (participants w). event_id p = i \<and> user_id p = u)
            \<and> \<not> int (length (get_participants w i)) < max_participants e \<longrightarrow>
            (\<exists>w'. join_event now w i u name nid k =
                      ((True, AddedToWaitlist (int (length (get_waitlist w i None)) + 1),
                        Some (new_participant i u name WAITLIST (int (length (get_waitlist w i None)) + 1) now nid)), w')
                \<and> participants w' = take k (participants w)
                      @ [new_participant i u name WAITLIST (int (length (get_waitlist w i None)) + 1) now nid]
                      @ drop k (participants w)
                \<and> events w' = events w))"
proof -
  have cj: "can_user_join w i = (True, NoMessage)"
    using assms by (auto simp: can_user_join_status)
  have a: "(\<exists>p \<in> set (participants w). event_id p = i \<and> user_id p = u) \<longrightarrow>
            join_event now w i u name nid k = ((False, AlreadyParticipating, None), w)"
    using join_event_existing[OF assms(1) cj] by (simp add: is_user_participating_iff)
  have b: "\<not> (\<exists>p \<in> set (participants w). event_id p = i \<and> user_id p = u)
            \<and> int (length (get_participants w i)) < max_participants e \<longrightarrow>
            (\<exists>w' e'. join_event now w i u name nid k =
                      ((True, JoinedDirectly (title e), Some (new_participant i u name JOINED 0 now nid)), w')
                \<and> participants w' = take k (participants w)
                      @ [new_participant i u name JOINED 0 now nid] @ drop k (participants w)
                \<and> get_event w' i = Some e'
                \<and> current_participants e' = current_participants e + 1)"
  proof (intro impI, elim conjE)
    assume n: "\<not> (\<exists>p \<in> set (participants w). event_id p = i \<and> user_id p = u)"
      and c: "int (length (get_participants w i)) < max_participants e"
    let ?p = "new_participant i u name JOINED 0 now nid"
    let ?w1 = "create_participant w k ?p"
    have j: "join_event now w i u name nid k =
        ((True, JoinedDirectly (title e), Some ?p), snd (increment_participant_count now ?w1 i))"
      using n c by (intro join_event_direct[OF assms(1) cj])
                   (simp_all add: is_user_participating_iff new_participant_def)
    have g: "get_event ?w1 i = Some e" using assms(1) by simp
    show "\<exists>w' e'. join_event now w i u name nid k =
                      ((True, JoinedDirectly (title e), Some ?p), w')
                \<and> participants w' = take k (participants w) @ [?p] @ drop k (participants w)
                \<and> get_event w' i = Some e'
                \<and> current_participants e' = current_participants e + 1"
      using j get_event_increment[OF g, of now] by simp
  qed
  have c: "\<not> (\<exists>p \<in> set (participants w). event_id p = i \<and> user_id p = u)
            \<and> \<not> int (length (get_participants w i)) < max_participants e \<longrightarrow>
            (\<exists>w'. join_event now w i u name nid k =
                      ((True, AddedToWaitlist (int (length (get_waitlist w i None)) + 1),
                        Some (new_participant i u name WAITLIST (int (length (get_waitlist w i None)) + 1) now nid)), w')
                \<and> participants w' = take k (participants w)
                      @ [new_participant i u name WAITLIST (int (length (get_waitlist w i None)) + 1) now nid]
                      @ drop k (participants w)
                \<and> events w' = events w)"
  proof (intro impI, elim conjE)
    assume n: "\<not> (\<exists>p \<in> set (participants w). event_id p = i \<and> user_id p = u)"
      and c: "\<not> int (length (get_participants w i)) < max_participants e"
    let ?p = "new_participant i u name WAITLIST (int (length (get_waitlist w i None)) + 1) now nid"
    have j: "join_event now w i u name nid k =
        ((True, AddedToWaitlist (int (length (get_waitlist w i None)) + 1), Some ?p),
         create_participant w k ?p)"
      using n c by (intro join_event_waitlist[OF assms(1) cj])
                   (simp_all add: is_user_participating_iff new_participant_def)
    show "\<exists>w'. join_event now w i u name nid k =
                      ((True, AddedToWaitlist (int (length (get_waitlist w i None)) + 1), Some ?p), w')
                \<and> participants w' = take k (participants w) @ [?p] @ drop k (participants w)
                \<and> events w' = events w"
      using j by simp
  qed
  from a b c show ?thesis by blast
qed

text \<open>
  C5. On an event that accepts joins, a user without a record gets a JOINED record with
  position 0 and the stored counter goes up by one when fewer JOINED records than
  \<open>max_participants\<close> exist; otherwise the user gets a WAITLIST record with position
  waitlist length + 1 and the events are left as they are. A user who has a record, JOINED
  or WAITLIST, is refused with AlreadyParticipating and the store is unchanged.
\<close>

theorem join_event_admission:
  assumes "get_event w i = Some e" and "status e = ACTIVE \<or> status e = FULL"
  shows "((\<exists>p \<in> set (participants w). event_id p = i \<and> user_id p = u) \<longrightarrow>
            join_event now w i u name nid k = ((False, AlreadyParticipating, None), w))
       \<and> (\<not> (\<exists>p \<in> set (participants w). event_id p = i \<and> user_id p = u)
            \<and> int (length (get_participants w i)) < max_participants e \<longrightarrow>
            (\<exists>w' e'. join_event now w i u name nid k =
                      ((True, JoinedDirectly (title e), Some (new_participant i u name JOINED 0 now nid)), w')
                \<and> participants w' = take k (participants w)
                      @ [new_participant i u name JOINED 0 now nid] @ drop k (participants w)
                \<and> get_event w' i = Some e'
                \<and> current_participants e' = current_participants e + 1))
       \<and> (\<not> (\<exists>p \<in> set (participants w). event_id p = i \<and> user_id p = u)
            \<and> \<not> int (length (get_participants w i)) < max_participants e \<longrightarrow>
            (\<exists>w'. join_event now w i u name nid k =
                      ((True, AddedToWaitlist (int (length (get_waitlist w i None)) + 1),
                        Some (new_participant i u name WAITLIST (int (length (get_waitlist w i None)) + 1) now nid)), w')
                \<and> participants w' = take k (participants w)
                      @ [new_participant i u name WAITLIST (int (length (get_waitlist w i None)) + 1) now nid]
                      @ drop k (participants w)
                \<and> events w' = events w))"
  using assms by (rule join_event_cases)

theorem join_event_admission_witness:
  "get_event full_world ''e1'' = Some (game_night\<lparr>current_participants := 2, status := FULL\<rparr>)
   \<and> get_event empty_world ''e1'' = Some game_night
   \<and> join_event 50 full_world ''e1'' ''101'' ''alice'' ''p5'' 0 = ((False, AlreadyParticipating, None), full_world)
   \<and> fst (join_event 40 full_world ''e1'' ''104'' ''dave'' ''p1'' 0)
       = (True, AddedToWaitlist 2, Some dave)
   \<and> fst (join_event 10 empty_world ''e1'' ''101'' ''alice'' ''p7'' 0)
       = (True, JoinedDirectly ''Game night'', Some alice)"
proof -
  have h1: "get_event full_world ''e1'' = Some (game_night\<lparr>current_participants := 2, status := FULL\<rparr>)"
    by (simp add: get_event_def fixture_defs)
  have h2: "status (game_night\<lparr>current_participants := 2, status := FULL\<rparr>) = ACTIVE
          \<or> status (game_night\<lparr>current_participants := 2, status := FULL\<rparr>) = FULL" by simp
  have h3: "get_event empty_world ''e1'' = Some game_night"
    by (simp add: get_event_def fixture_defs)
  have h4: "status game_night = ACTIVE \<or> status game_night = FULL" by (simp add: fixture_defs)
  have l1: "length (get_participants full_world ''e1'') = 2"
    by (simp add: length_get_participants fixture_defs)
  have l2: "length (get_waitlist full_world ''e1'' None) = 1"
    by (simp add: length_get_waitlist fixture_defs)
  have l3: "length (get_participants empty_world ''e1'') = 0"
    by (simp add: length_get_participants fixture_defs)
  have m: "max_participants game_night = 2" "title game_night = ''Game night''" by (simp_all add: fixture_defs)
  have a: "join_event 50 full_world ''e1'' ''101'' ''alice'' ''p5'' 0 = ((False, AlreadyParticipating, None), full_world)"
    using join_event_admission[OF h1 h2, of "''101''" 50 "''alice''" "''p5''" 0]
    by (simp add: fixture_defs)
  have b: "fst (join_event 40 full_world ''e1'' ''104'' ''dave'' ''p1'' 0)
       = (True, AddedToWaitlist 2, Some dave)"
    using join_event_admission[OF h1 h2, of "''104''" 40 "''dave''" "''p1''" 0] l1 l2 m
    by (auto simp: fixture_defs)
  have c: "fst (join_event 10 empty_world ''e1'' ''101'' ''alice'' ''p7'' 0)
       = (True, JoinedDirectly ''Game night'', Some alice)"
    using join_event_admission[OF h3 h4, of "''101''" 10 "''alice''" "''p7''" 0] l3 m
    by (auto simp: fixture_defs)
  from h1 h3 a b c show ?thesis by simp
qed

text \<open>
  C6. \<^verbatim>\<open>join_event\<close> on a CLOSED, CANCELLED or COMPLETED event fails with the reason of
  that status and leaves the whole store as it was. On an ACTIVE or FULL event the status
  check passes, and the join succeeds exactly when the user has no record yet; on a FULL
  event at capacity the user is put on the waitlist.
\<close>

theorem join_event_status_gate:
  assumes "get_event w i = Some e"
  shows "(status e = CLOSED \<longrightarrow>
            join_event now w i u name nid k = ((False, RecruitmentClosed, None), w))
       \<and> (status e = CANCELLED \<longrightarrow>
            join_event now w i u name nid k = ((False, EventCancelled, None), w))
       \<and> (status e = COMPLETED \<longrightarrow>
            join_event now w i u name nid k = ((False, EventCompleted, None), w))
       \<and> (status e = ACTIVE \<or> status e = FULL \<longrightarrow>
            can_user_join w i = (True, NoMessage)
            \<and> (fst (fst (join_event now w i u name nid k))
                 = (\<not> (\<exists>p \<in> set (participants w). event_id p = i \<and> user_id p = u))))
       \<and> (status e = FULL
            \<and> \<not> (\<exists>p \<in> set (participants w). event_id p = i \<and> user_id p = u)
            \<and> max_participants e \<le> int (length (get_participants w i)) \<longrightarrow>
            (\<exists>p w'. join_event now w i u name nid k = ((True, AddedToWaitlist (position p), Some p), w')
               \<and> pstatus p = WAITLIST \<and> event_id p = i \<and> user_id p = u
               \<and> p \<in> set (participants w')))"
proof -
  have blocked: "\<And>r. can_user_join w i = (False, r) \<Longrightarrow>
      join_event now w i u name nid k = ((False, r, None), w)"
    using assms by (rule join_event_blocked)
  have a: "status e = CLOSED \<longrightarrow> join_event now w i u name nid k = ((False, RecruitmentClosed, None), w)"
    using blocked[of RecruitmentClosed] assms by (simp add: can_user_join_status)
  have b: "status e = CANCELLED \<longrightarrow> join_event now w i u name nid k = ((False, EventCancelled, None), w)"
    using blocked[of EventCancelled] assms by (simp add: can_user_join_status)
  have c: "status e = COMPLETED \<longrightarrow> join_event now w i u name nid k = ((False, EventCompleted, None), w)"
    using blocked[of EventCompleted] assms by (simp add: can_user_join_status)
  have d: "status e = ACTIVE \<or> status e = FULL \<longrightarrow>
            can_user_join w i = (True, NoMessage)
            \<and> (fst (fst (join_event now w i u name nid k))
                 = (\<not> (\<exists>p \<in> set (participants w). event_id p = i \<and> user_id p = u)))"
  proof
    assume s: "status e = ACTIVE \<or> status e = FULL"
    have cj: "can_user_join w i = (True, NoMessage)"
      using assms s by (auto simp: can_user_join_status)
    show "can_user_join w i = (True, NoMessage)
            \<and> (fst (fst (join_event now w i u name nid k))
                 = (\<not> (\<exists>p \<in> set (participants w). event_id p = i \<and> user_id p = u)))"
      using join_event_cases[OF assms s, of u now name nid k] cj
      by (cases "\<exists>p \<in> set (participants w). event_id p = i \<and> user_id p = u";
          cases "int (length (get_participants w i)) < max_participants e") auto
  qed
  have f: "status e = FULL
            \<and> \<not> (\<exists>p \<in> set (participants w). event_id p = i \<and> user_id p = u)
            \<and> max_participants e \<le> int (length (get_participants w i)) \<longrightarrow>
            (\<exists>p w'. join_event now w i u name nid k = ((True, AddedToWaitlist (position p), Some p), w')
               \<and> pstatus p = WAITLIST \<and> event_id p = i \<and> user_id p = u
               \<and> p \<in> set (participants w'))"
  proof (intro impI, elim conjE)
    assume s: "status e = FULL"
      and n: "\<not> (\<exists>p \<in> set (participants w). event_id p = i \<and> user_id p = u)"
      and m: "max_participants e \<le> int (length (get_participants w i))"
    let ?p = "new_participant i u name WAITLIST (int (length (get_waitlist w i None)) + 1) now nid"
    from join_event_cases[OF assms, of u now name nid k] s n m
    obtain w' where j: "join_event now w i u name nid k =
                      ((True, AddedToWaitlist (int (length (get_waitlist w i None)) + 1), Some ?p), w')"
      and ps: "participants w' = take k (participants w) @ [?p] @ drop k (participants w)"
      by auto
    have "position ?p = int (length (get_waitlist w i None)) + 1" "pstatus ?p = WAITLIST"
      "event_id ?p = i" "user_id ?p = u" "?p \<in> set (participants w')"
      using ps by (simp_all add: new_participant_def)
    with j show "\<exists>p w'. join_event now w i u name nid k = ((True, AddedToWaitlist (position p), Some p), w')
               \<and> pstatus p = WAITLIST \<and> event_id p = i \<and> user_id p = u
               \<and> p \<in> set (participants w')"
      by metis
  qed
  from a b c d f show ?thesis by blast
qed

theorem join_event_status_gate_witness:
  "get_event full_world ''e1'' = Some (game_night\<lparr>current_participants := 2, status := FULL\<rparr>)
   \<and> get_event (full_world\<lparr>events := [game_night\<lparr>status := CLOSED\<rparr>]\<rparr>) ''e1''
       = Some (game_night\<lparr>status := CLOSED\<rparr>)
   \<and> join_event 50 (full_world\<lparr>events := [game_night\<lparr>status := CLOSED\<rparr>]\<rparr>) ''e1'' ''104'' ''dave'' ''p1'' 0
       = ((False, RecruitmentClosed, None), full_world\<lparr>events := [game_night\<lparr>status := CLOSED\<rparr>]\<rparr>)
   \<and> join_event 50 (full_world\<lparr>events := [game_night\<lparr>status := CANCELLED\<rparr>]\<rparr>) ''e1'' ''104'' ''dave'' ''p1'' 0
       = ((False, EventCancelled, None), full_world\<lparr>events := [game_night\<lparr>status := CANCELLED\<rparr>]\<rparr>)
   \<and> join_event 50 (full_world\<lparr>events := [game_night\<lparr>status := COMPLETED\<rparr>]\<rparr>) ''e1'' ''104'' ''dave'' ''p1'' 0
       = ((False, EventCompleted, None), full_world\<lparr>events := [game_night\<lparr>status := COMPLETED\<rparr>]\<rparr>)
   \<and> can_user_join full_world ''e1'' = (True, NoMessage)
   \<and> fst (fst (join_event 40 full_world ''e1'' ''104'' ''dave'' ''p1'' 0)) = True
   \<and> (\<exists>p w'. join_event 40 full_world ''e1'' ''104'' ''dave'' ''p1'' 0
                = ((True, AddedToWaitlist (position p), Some p), w')
             \<and> pstatus p = WAITLIST \<and> event_id p = ''e1'' \<and> user_id p = ''104''
             \<and> p \<in> set (participants w'))"
proof -
  let ?f = "game_night\<lparr>current_participants := 2, status := FULL\<rparr>"
  have h1: "get_event full_world ''e1'' = Some ?f"
    by (simp add: get_event_def fixture_defs)
  have hc: "\<And>s. get_event (full_world\<lparr>events := [game_night\<lparr>status := s\<rparr>]\<rparr>) ''e1''
       = Some (game_night\<lparr>status := s\<rparr>)"
    by (simp add: get_event_def fixture_defs)
  have n: "\<not> (\<exists>p \<in> set (participants full_world). event_id p = ''e1'' \<and> user_id p = ''104'')"
    by (simp add: fixture_defs)
  have l: "max_participants ?f \<le> int (length (get_participants full_world ''e1''))"
    by (simp add: length_get_participants fixture_defs)
  have s: "status ?f = FULL" by simp
  note g = join_event_status_gate[OF h1, of 40 "''104''" "''dave''" "''p1''" 0]
  have a: "can_user_join full_world ''e1'' = (True, NoMessage)"
    and b: "fst (fst (join_event 40 full_world ''e1'' ''104'' ''dave'' ''p1'' 0)) = True"
    using g n s by simp_all
  have c: "\<exists>p w'. join_event 40 full_world ''e1'' ''104'' ''dave'' ''p1'' 0
                = ((True, AddedToWaitlist (position p), Some p), w')
             \<and> pstatus p = WAITLIST \<and> event_id p = ''e1'' \<and> user_id p = ''104''
             \<and> p \<in> set (participants w')"
    using g n s l by blast
  have d: "join_event 50 (full_world\<lparr>events := [game_night\<lparr>status := CLOSED\<rparr>]\<rparr>) ''e1'' ''104'' ''dave'' ''p1'' 0
       = ((False, RecruitmentClosed, None), full_world\<lparr>events := [game_night\<lparr>status := CLOSED\<rparr>]\<rparr>)"
    using join_event_status_gate[OF hc[of CLOSED], of 50 "''104''" "''dave''" "''p1''" 0] by simp
  have e: "join_event 50 (full_world\<lparr>events := [game_night\<lparr>status := CANCELLED\<rparr>]\<rparr>) ''e1'' ''104'' ''dave'' ''p1'' 0
       = ((False, EventCancelled, None), full_world\<lparr>events := [game_night\<lparr>status := CANCELLED\<rparr>]\<rparr>)"
    using join_event_status_gate[OF hc[of CANCELLED], of 50 "''104''" "''dave''" "''p1''" 0] by simp
  have f: "join_event 50 (full_world\<lparr>events := [game_night\<lparr>status := COMPLETED\<rparr>]\<rparr>) ''e1'' ''104'' ''dave'' ''p1'' 0
       = ((False, EventCompleted, None), full_world\<lparr>events := [game_night\<lparr>status := COMPLETED\<rparr>]\<rparr>)"
    using join_event_status_gate[OF hc[of COMPLETED], of 50 "''104''" "''dave''" "''p1''" 0] by simp
  from h1 hc[of CLOSED] a b c d e f show ?thesis by blast
qed

lemma get_event_check_completed:
  "get_event w i = Some e \<Longrightarrow> start_time e < now \<Longrightarrow>
   status e \<noteq> COMPLETED \<Longrightarrow> status e \<noteq> CANCELLED \<Longrightarrow>
   get_event (check_completed_event now w e) i = Some (e\<lparr>status := COMPLETED, updated_at := now\<rparr>)"
  using get_event_update_event[of w "e\<lparr>status := COMPLETED\<rparr>" e now]
  by (simp add: check_completed_event_def get_event_eid)

text \<open>
  C10. The admission check reads the stored status only. On an event stored as ACTIVE or
  FULL it answers true for every clock value, it answers the same on any two events of
  equal status, and \<^verbatim>\<open>join_event\<close> adds a record for a new user at any time \<open>now\<close>, also
  after the start time. Once a counter update or the completion sweep has run after the
  start time, the stored status is COMPLETED and the check refuses.
\<close>

theorem can_user_join_ignores_clock:
  assumes "get_event w i = Some e" and "status e = ACTIVE \<or> status e = FULL"
  shows "can_user_join w i = (True, NoMessage)
       \<and> (\<forall>w2 e2. get_event w2 i2 = Some e2 \<and> status e2 = status e \<longrightarrow>
             can_user_join w2 i2 = can_user_join w i)
       \<and> (\<not> (\<exists>p \<in> set (participants w). event_id p = i \<and> user_id p = u) \<longrightarrow>
            (\<exists>msg p w'. join_event now w i u name nid k = ((True, msg, Some p), w')
               \<and> p \<in> set (participants w') \<and> event_id p = i \<and> user_id p = u))
       \<and> (start_time e < now \<longrightarrow>
            can_user_join (snd (increment_participant_count now w i)) i = (False, EventCompleted)
            \<and> can_user_join (check_completed_event now w e) i = (False, EventCompleted))"
proof -
  have a: "can_user_join w i = (True, NoMessage)"
    using assms by (auto simp: can_user_join_status)
  have b: "\<forall>w2 e2. get_event w2 i2 = Some e2 \<and> status e2 = status e \<longrightarrow>
             can_user_join w2 i2 = can_user_join w i"
    using assms by (auto simp: can_user_join_status)
  have c: "\<not> (\<exists>p \<in> set (participants w). event_id p = i \<and> user_id p = u) \<longrightarrow>
            (\<exists>msg p w'. join_event now w i u name nid k = ((True, msg, Some p), w')
               \<and> p \<in> set (participants w') \<and> event_id p = i \<and> user_id p = u)"
  proof
    assume n: "\<not> (\<exists>p \<in> set (participants w). event_id p = i \<and> user_id p = u)"
    show "\<exists>msg p w'. join_event now w i u name nid k = ((True, msg, Some p), w')
               \<and> p \<in> set (participants w') \<and> event_id p = i \<and> user_id p = u"
    proof (cases "int (length (get_participants w i)) < max_participants e")
      case True
      let ?p = "new_participant i u name JOINED 0 now nid"
      from join_event_cases[OF assms, of u now name nid k] n True
      obtain w' where "join_event now w i u name nid k = ((True, JoinedDirectly (title e), Some ?p), w')"
        and "participants w' = take k (participants w) @ [?p] @ drop k (participants w)"
        by auto
      moreover have "event_id ?p = i" "user_id ?p = u" by (simp_all add: new_participant_def)
      ultimately show ?thesis by (intro exI[of _ "JoinedDirectly (title e)"] exI[of _ ?p] exI[of _ w']) simp
    next
      case False
      let ?p = "new_participant i u name WAITLIST (int (length (get_waitlist w i None)) + 1) now nid"
      from join_event_cases[OF assms, of u now name nid k] n False
      obtain w' where "join_event now w i u name nid k =
           ((True, AddedToWaitlist (int (length (get_waitlist w i None)) + 1), Some ?p), w')"
        and "participants w' = take k (participants w) @ [?p] @ drop k (participants w)"
        by auto
      moreover have "event_id ?p = i" "user_id ?p = u" by (simp_all add: new_participant_def)
      ultimately show ?thesis
        by (intro exI[of _ "AddedToWaitlist (int (length (get_waitlist w i None)) + 1)"]
              exI[of _ ?p] exI[of _ w']) simp
    qed
  qed
  have d: "start_time e < now \<longrightarrow>
            can_user_join (snd (increment_participant_count now w i)) i = (False, EventCompleted)
            \<and> can_user_join (check_completed_event now w e) i = (False, EventCompleted)"
  proof
    assume past: "start_time e < now"
    let ?e1 = "(update_status now (e\<lparr>current_participants := current_participants e + 1\<rparr>))\<lparr>updated_at := now\<rparr>"
    have "status ?e1 = COMPLETED"
      using assms(2) past by (auto simp: update_status_def Let_def)
    then have d1: "can_user_join (snd (increment_participant_count now w i)) i = (False, EventCompleted)"
      using get_event_increment[OF assms(1), of now] by (simp add: can_user_join_status)
    have "get_event (check_completed_event now w e) i = Some (e\<lparr>status := COMPLETED, updated_at := now\<rparr>)"
      using assms past by (intro get_event_check_completed) auto
    then have d2: "can_user_join (check_completed_event now w e) i = (False, EventCompleted)"
      by (simp add: can_user_join_status)
    from d1 d2 show "can_user_join (snd (increment_participant_count now w i)) i = (False, EventCompleted)
            \<and> can_user_join (check_completed_event now w e) i = (False, EventCompleted)" by simp
  qed
  from a b c d show ?thesis by blast
qed

theorem can_user_join_ignores_clock_witness:
  "get_event empty_world ''e1'' = Some game_night
   \<and> status game_night = ACTIVE
   \<and> start_time game_night < 5000
   \<and> can_user_join empty_world ''e1'' = (True, NoMessage)
   \<and> (\<exists>msg p w'. join_event 5000 empty_world ''e1'' ''101'' ''alice'' ''p7'' 0 = ((True, msg, Some p), w')
               \<and> p \<in> set (participants w') \<and> event_id p = ''e1'' \<and> user_id p = ''101'')
   \<and> can_user_join (snd (increment_participant_count 5000 empty_world ''e1'')) ''e1'' = (False, EventCompleted)
   \<and> can_user_join (check_completed_event 5000 empty_world game_night) ''e1'' = (False, EventCompleted)"
proof -
  have h1: "get_event empty_world ''e1'' = Some game_night"
    by (simp add: get_event_def fixture_defs)
  have h2: "status game_night = ACTIVE \<or> status game_night = FULL" by (simp add: fixture_defs)
  have h3: "status game_night = ACTIVE" "start_time game_night < 5000" by (simp_all add: fixture_defs)
  have n: "\<not> (\<exists>p \<in> set (participants empty_world). event_id p = ''e1'' \<and> user_id p = ''101'')"
    by (simp add: fixture_defs)
  from can_user_join_ignores_clock[OF h1 h2, of "''e1''" "''101''" 5000 "''alice''" "''p7''" 0] h1 h3 n
  show ?thesis by blast
qed

section \<open>The reminder sweep\<close>

lemma get_event_update_event_other:
  "eid e' \<noteq> i \<Longrightarrow> get_event (snd (update_event now w e')) i = get_event w i"
  by (simp add: update_event_def get_event_def find_map_other split: option.splits)

lemma eids_update_event [simp]:
  "map eid (events (snd (update_event now w e'))) = map eid (events w)"
  by (simp add: update_event_def split: option.splits)

lemma reminders_about_update_event [simp]:
  "reminders_about i (snd (update_event now w e')) = reminders_about i w"
  by (simp add: reminders_about_def)

lemma check_reminder_event_skip:
  "reminder_sent ev \<or> \<not> (status ev = ACTIVE \<or> status ev = FULL \<or> status ev = CLOSED) \<Longrightarrow>
   check_reminder_event now m deliver w ev = w"
  by (auto simp: check_reminder_event_def)

lemma check_reminder_event_changes:
  "check_reminder_event now m deliver w ev \<noteq> w \<Longrightarrow>
   start_time ev - timedelta_minutes m \<le> now \<and> now < start_time ev \<and> \<not> reminder_sent ev
   \<and> (status ev = ACTIVE \<or> status ev = FULL \<or> status ev = CLOSED)"
  by (auto simp: check_reminder_event_def should_send_reminder_def get_reminder_time_def split: if_splits)

lemma check_reminder_event_due:
  "\<not> reminder_sent ev \<Longrightarrow> status ev = ACTIVE \<or> status ev = FULL \<or> status ev = CLOSED \<Longrightarrow>
   start_time ev - timedelta_minutes m \<le> now \<Longrightarrow> now < start_time ev \<Longrightarrow>
   check_reminder_event now m deliver w ev = send_reminder now deliver w ev"
  by (auto simp: check_reminder_event_def should_send_reminder_def get_reminder_time_def)

lemma get_event_send_reminder:
  assumes "get_event w (eid ev) = Some e0"
  shows "get_event (send_reminder now deliver w ev) (eid ev) = Some (ev\<lparr>reminder_sent := True, updated_at := now\<rparr>)"
proof -
  have "\<And>w1. get_event w1 (eid ev) = Some e0 \<Longrightarrow>
     get_event (snd (update_event now w1 (ev\<lparr>reminder_sent := True\<rparr>))) (eid ev)
       = Some (ev\<lparr>reminder_sent := True, updated_at := now\<rparr>)"
    using get_event_update_event[of _ "ev\<lparr>reminder_sent := True\<rparr>" e0 now] by simp
  moreover have "\<And>ob. get_event (w\<lparr>outbox := ob\<rparr>) (eid ev) = Some e0"
    using assms by (simp add: get_event_def)
  ultimately show ?thesis using assms by (simp add: send_reminder_def Let_def)
qed

lemma send_reminder_other:
  assumes "eid ev \<noteq> i"
  shows "get_event (send_reminder now deliver w ev) i = get_event w i"
    and "reminders_about i (send_reminder now deliver w ev) = reminders_about i w"
proof -
  have g: "\<And>ob. get_event (w\<lparr>outbox := ob\<rparr>) i = get_event w i" by (simp add: get_event_def)
  show "get_event (send_reminder now deliver w ev) i = get_event w i"
    using assms by (simp add: send_reminder_def Let_def get_event_update_event_other g)
  have "filter (\<lambda>n. notification_event n = i)
          (filter deliver (map (\<lambda>p. DirectMessage (user_id p) (eid ev)) ps)) = []" for ps
    using assms by (induction ps) auto
  then show "reminders_about i (send_reminder now deliver w ev) = reminders_about i w"
    using assms by (simp add: send_reminder_def Let_def) (simp add: reminders_about_def)
qed

lemma eids_send_reminder [simp]:
  "map eid (events (send_reminder now deliver w ev)) = map eid (events w)"
  by (simp add: send_reminder_def Let_def)

lemma eids_check_reminder_event [simp]:
  "map eid (events (check_reminder_event now m deliver w ev)) = map eid (events w)"
  by (simp add: check_reminder_event_def)

lemma check_reminder_event_other:
  assumes "eid ev \<noteq> i"
  shows "get_event (check_reminder_event now m deliver w ev) i = get_event w i"
    and "reminders_about i (check_reminder_event now m deliver w ev) = reminders_about i w"
  using assms by (simp_all add: check_reminder_event_def send_reminder_other)

lemma reminder_loop_keeps:
  assumes "\<And>ev. ev \<in> set evs \<Longrightarrow> eid ev = i \<Longrightarrow>
            reminder_sent ev \<or> \<not> (status ev = ACTIVE \<or> status ev = FULL \<or> status ev = CLOSED)"
  shows "get_event (fold (\<lambda>event w''. check_reminder_event (clk event) m deliver w'' event) evs w) i = get_event w i
       \<and> reminders_about i (fold (\<lambda>event w''. check_reminder_event (clk event) m deliver w'' event) evs w)
           = reminders_about i w
       \<and> map eid (events (fold (\<lambda>event w''. check_reminder_event (clk event) m deliver w'' event) evs w))
           = map eid (events w)"
  using assms
proof (induction evs arbitrary: w)
  case Nil
  then show ?case by simp
next
  case (Cons ev evs)
  let ?w1 = "check_reminder_event (clk ev) m deliver w ev"
  have step: "get_event ?w1 i = get_event w i \<and> reminders_about i ?w1 = reminders_about i w"
  proof (cases "eid ev = i")
    case True
    then have "?w1 = w" using Cons.prems[of ev] by (intro check_reminder_event_skip) simp
    then show ?thesis by simp
  next
    case False
    then show ?thesis by (simp add: check_reminder_event_other)
  qed
  have "\<And>ev'. ev' \<in> set evs \<Longrightarrow> eid ev' = i \<Longrightarrow>
            reminder_sent ev' \<or> \<not> (status ev' = ACTIVE \<or> status ev' = FULL \<or> status ev' = CLOSED)"
    using Cons.prems by simp
  from Cons.IH[OF this, of ?w1] step show ?case by simp
qed

lemma stored_event_unique:
  assumes "distinct (map eid (events w))" and "get_event w i = Some e"
    and "ev \<in> set (events w)" and "eid ev = i"
  shows "ev = e"
proof -
  have "e \<in> set (events w)" "eid e = i"
    using assms(2) by (auto simp: get_event_def find_Some_iff)
  with assms(1,3,4) show ?thesis by (metis distinct_map inj_onD)
qed

lemma set_get_all_events: "set (get_all_events w g) \<subseteq> set (events w)"
  by (auto simp: get_all_events_def query_documents_def)

lemma check_reminders_keeps:
  assumes "distinct (map eid (events w))" and "get_event w i = Some e"
    and "reminder_sent e \<or> \<not> (status e = ACTIVE \<or> status e = FULL \<or> status e = CLOSED)"
  shows "get_event (check_reminders clock m deliver guilds w) i = Some e
       \<and> reminders_about i (check_reminders clock m deliver guilds w) = reminders_about i w
       \<and> map eid (events (check_reminders clock m deliver guilds w)) = map eid (events w)"
  using assms(1,2)
proof (induction guilds arbitrary: w)
  case Nil
  then show ?case by (simp add: check_reminders_def)
next
  case (Cons g guilds)
  let ?w1 = "fold (\<lambda>event w''. check_reminder_event (clock g event) m deliver w'' event) (get_all_events w g) w"
  have "\<And>ev. ev \<in> set (get_all_events w g) \<Longrightarrow> eid ev = i \<Longrightarrow>
            reminder_sent ev \<or> \<not> (status ev = ACTIVE \<or> status ev = FULL \<or> status ev = CLOSED)"
    using stored_event_unique[OF Cons.prems] set_get_all_events[of w g] assms(3) by blast
  from reminder_loop_keeps[of "get_all_events w g" i "clock g" m deliver w, OF this]
  have k: "get_event ?w1 i = Some e" "reminders_about i ?w1 = reminders_about i w"
    "map eid (events ?w1) = map eid (events w)"
    using Cons.prems by simp_all
  have d: "distinct (map eid (events ?w1))" using k(3) Cons.prems(1) by simp
  have "check_reminders clock m deliver (g # guilds) w = check_reminders clock m deliver guilds ?w1"
    by (simp add: check_reminders_def)
  with Cons.IH[OF d k(1)] k show ?case by simp
qed

lemma run_reminder_sweeps_keeps:
  assumes "distinct (map eid (events w))" and "get_event w i = Some e"
    and "reminder_sent e \<or> \<not> (status e = ACTIVE \<or> status e = FULL \<or> status e = CLOSED)"
  shows "get_event (run_reminder_sweeps sweeps w) i = Some e
       \<and> reminders_about i (run_reminder_sweeps sweeps w) = reminders_about i w"
  using assms(1,2)
proof (induction sweeps w rule: run_reminder_sweeps.induct)
  case (1 w)
  then show ?case by simp
next
  case (2 clock m deliver guilds rest w)
  from check_reminders_keeps[OF 2(2,3) assms(3), of clock m deliver guilds]
  have k: "get_event (check_reminders clock m deliver guilds w) i = Some e"
    "reminders_about i (check_reminders clock m deliver guilds w) = reminders_about i w"
    "distinct (map eid (events (check_reminders clock m deliver guilds w)))"
    using 2(2) by simp_all
  from 2(1)[OF k(3) k(1)] k(2) show ?case by simp
qed

text \<open>
  C7. For a stored event, one visit of the reminder sweep changes the store or the outbox
  only when now lies in the window from start time minus the reminder window up to, but
  not including, the start time, the reminder is not yet marked and the status is ACTIVE,
  FULL or CLOSED. A marked event, or one of another status, is skipped by the visit and
  by every later sweep. A visit in the window marks the event in the store, with or
  without participants and whatever the delivery does, and all later sweeps leave that
  event and the messages about it as they are.
\<close>

theorem reminder_sweep_at_most_once:
  assumes "distinct (map eid (events w))" and "get_event w (eid e) = Some e"
  shows "(check_reminder_event now m deliver w e \<noteq> w \<longrightarrow>
            start_time e - timedelta_minutes m \<le> now \<and> now < start_time e \<and> \<not> reminder_sent e
            \<and> (status e = ACTIVE \<or> status e = FULL \<or> status e = CLOSED))
       \<and> (reminder_sent e \<or> \<not> (status e = ACTIVE \<or> status e = FULL \<or> status e = CLOSED) \<longrightarrow>
            check_reminder_event now m deliver w e = w
            \<and> get_event (run_reminder_sweeps sweeps w) (eid e) = Some e
            \<and> reminders_about (eid e) (run_reminder_sweeps sweeps w) = reminders_about (eid e) w)
       \<and> (\<not> reminder_sent e \<and> (status e = ACTIVE \<or> status e = FULL \<or> status e = CLOSED)
            \<and> start_time e - timedelta_minutes m \<le> now \<and> now < start_time e \<longrightarrow>
            get_event (check_reminder_event now m deliver w e) (eid e)
              = Some (e\<lparr>reminder_sent := True, updated_at := now\<rparr>)
            \<and> get_event (run_reminder_sweeps sweeps (check_reminder_event now m deliver w e)) (eid e)
              = Some (e\<lparr>reminder_sent := True, updated_at := now\<rparr>)
            \<and> reminders_about (eid e) (run_reminder_sweeps sweeps (check_reminder_event now m deliver w e))
              = reminders_about (eid e) (check_reminder_event now m deliver w e))"
proof -
  have a: "check_reminder_event now m deliver w e \<noteq> w \<longrightarrow>
            start_time e - timedelta_minutes m \<le> now \<and> now < start_time e \<and> \<not> reminder_sent e
            \<and> (status e = ACTIVE \<or> status e = FULL \<or> status e = CLOSED)"
    using check_reminder_event_changes[of now m deliver w e] by blast
  have b: "reminder_sent e \<or> \<not> (status e = ACTIVE \<or> status e = FULL \<or> status e = CLOSED) \<longrightarrow>
            check_reminder_event now m deliver w e = w
            \<and> get_event (run_reminder_sweeps sweeps w) (eid e) = Some e
            \<and> reminders_about (eid e) (run_reminder_sweeps sweeps w) = reminders_about (eid e) w"
    using check_reminder_event_skip[of e now m deliver w] run_reminder_sweeps_keeps[OF assms, of sweeps]
    by blast
  have c: "\<not> reminder_sent e \<and> (status e = ACTIVE \<or> status e = FULL \<or> status e = CLOSED)
            \<and> start_time e - timedelta_minutes m \<le> now \<and> now < start_time e \<longrightarrow>
            get_event (check_reminder_event now m deliver w e) (eid e)
              = Some (e\<lparr>reminder_sent := True, updated_at := now\<rparr>)
            \<and> get_event (run_reminder_sweeps sweeps (check_reminder_event now m deliver w e)) (eid e)
              = Some (e\<lparr>reminder_sent := True, updated_at := now\<rparr>)
            \<and> reminders_about (eid e) (run_reminder_sweeps sweeps (check_reminder_event now m deliver w e))
              = reminders_about (eid e) (check_reminder_event now m deliver w e)"
  proof (intro impI, elim conjE)
    assume due: "\<not> reminder_sent e" "status e = ACTIVE \<or> status e = FULL \<or> status e = CLOSED"
      "start_time e - timedelta_minutes m \<le> now" "now < start_time e"
    let ?w' = "check_reminder_event now m deliver w e"
    let ?e' = "e\<lparr>reminder_sent := True, updated_at := now\<rparr>"
    have g: "get_event ?w' (eid e) = Some ?e'"
      using check_reminder_event_due[OF due, of deliver w] get_event_send_reminder[OF assms(2), of now deliver]
      by simp
    have d: "distinct (map eid (events ?w'))" using assms(1) by simp
    have s: "reminder_sent ?e' \<or> \<not> (status ?e' = ACTIVE \<or> status ?e' = FULL \<or> status ?e' = CLOSED)"
      by simp
    from run_reminder_sweeps_keeps[OF d g s, of sweeps] g
    show "get_event ?w' (eid e) = Some ?e'
            \<and> get_event (run_reminder_sweeps sweeps ?w') (eid e) = Some ?e'
            \<and> reminders_about (eid e) (run_reminder_sweeps sweeps ?w') = reminders_about (eid e) ?w'"
      by simp
  qed
  from a b c show ?thesis by blast
qed

theorem reminder_sweep_at_most_once_witness:
  "distinct (map eid (events full_world))
   \<and> get_event full_world (eid game_night_full) = Some game_night_full
   \<and> \<not> reminder_sent game_night_full \<and> status game_night_full = FULL
   \<and> start_time game_night_full - timedelta_minutes 30 \<le> 500 \<and> 500 < start_time game_night_full
   \<and> get_event (check_reminder_event 500 30 (\<lambda>n. True) full_world game_night_full) ''e1''
       = Some (game_night_full\<lparr>reminder_sent := True, updated_at := 500\<rparr>)
   \<and> reminders_about ''e1''
        (run_reminder_sweeps [(\<lambda>g ev. 600, 30, \<lambda>n. True, [''g1'']), (\<lambda>g ev. 900, 30, \<lambda>n. True, [''g1''])]
           (check_reminder_event 500 30 (\<lambda>n. True) full_world game_night_full))
       = [DirectMessage ''101'' ''e1'', DirectMessage ''102'' ''e1'', ChannelMessage ''c1'' ''e1'']"
proof -
  have h1: "distinct (map eid (events full_world))" by (simp add: fixture_defs)
  have h2: "get_event full_world (eid game_night_full) = Some game_night_full"
    by (simp add: get_event_def game_night_full_def fixture_defs)
  have h3: "\<not> reminder_sent game_night_full" "status game_night_full = FULL"
    "start_time game_night_full - timedelta_minutes 30 \<le> 500" "500 < start_time game_night_full"
    "eid game_night_full = ''e1''"
    by (simp_all add: game_night_full_def timedelta_minutes_def fixture_defs)
  have ps: "get_participants full_world ''e1'' = [alice, bob]"
    by (simp add: get_participants_def query_documents_def fixture_defs)
  have ob: "reminders_about ''e1'' (check_reminder_event 500 30 (\<lambda>n. True) full_world game_night_full)
       = [DirectMessage ''101'' ''e1'', DirectMessage ''102'' ''e1'', ChannelMessage ''c1'' ''e1'']"
    using h3 ps
    by (simp add: check_reminder_event_due send_reminder_def Let_def)
       (simp add: reminders_about_def game_night_full_def fixture_defs)
  from reminder_sweep_at_most_once[OF h1 h2, of 500 30 "\<lambda>n. True"
      "[(\<lambda>g ev. 600, 30, \<lambda>n. True, [''g1'']), (\<lambda>g ev. 900, 30, \<lambda>n. True, [''g1''])]"] h1 h2 h3 ob
  show ?thesis by simp
qed

section \<open>Leaving an event\<close>

lemmas run_defs = join_event_def leave_event_def can_user_join_def get_event_def
  is_user_participating_def get_participant_by_user_def query_documents_def
  get_participants_def get_waitlist_def create_participant_def update_participant_def
  delete_participant_def increment_participant_count_def decrement_participant_count_def
  update_event_def update_status_def is_full_def promote_first_from_waitlist_def
  promote_from_waitlist_def demote_to_waitlist_def update_waitlist_positions_def Let_def

lemma waiting_world_eq:
  "waiting_world =
     \<lparr>events = [game_night\<lparr>current_participants := 2, status := FULL, updated_at := 20\<rparr>],
      participants = [dave, bob, alice, carol],
      writes = [Created ''participants'' ''p7'', Updated ''events'' ''e1'',
                Created ''participants'' ''p3'', Updated ''events'' ''e1'',
                Created ''participants'' ''p9'', Created ''participants'' ''p1''],
      outbox = []\<rparr>"
  by (simp add: waiting_world_def run_defs fixture_defs)

text \<open>
  C1. Four users join an event for two; the store streams the two waitlisted records in
  the order dave (position 2), carol (position 1). When alice leaves, \<^verbatim>\<open>leave_event\<close>
  removes her record and promotes one user, but \<^verbatim>\<open>get_waitlist(event_id, limit=1)\<close> cuts
  the query to the first streamed record before the sort by position: dave is promoted and
  returned, and carol, the front of the waitlist, stays waitlisted.
\<close>

theorem leave_event_promotes_stream_first:
  "participants waiting_world = [dave, bob, alice, carol]
   \<and> get_waitlist waiting_world ''e1'' None = [carol, dave]
   \<and> fst (leave_event 50 waiting_world ''e1'' ''101'')
       = (True, LeftEvent (Some ''Game night''), Some ''104'')
   \<and> participants (snd (leave_event 50 waiting_world ''e1'' ''101''))
       = [dave\<lparr>pstatus := JOINED, position := 0\<rparr>, bob, carol]"
  by (simp add: waiting_world_eq run_defs fixture_defs)

section \<open>Resequencing the waitlist\<close>

lemma snd_enumerate_from [simp]: "map snd (enumerate_from n xs) = xs"
  by (induction xs arbitrary: n) auto

lemma length_enumerate_from [simp]: "length (enumerate_from n xs) = length xs"
  by (induction xs arbitrary: n) auto

lemma fst_enumerate_from: "map fst (enumerate_from n xs) = [n..n + int (length xs) - 1]"
proof (induction xs arbitrary: n)
  case Nil
  then show ?case by simp
next
  case (Cons x xs)
  have "[n..n + int (length (x # xs)) - 1] = n # [n + 1..n + 1 + int (length xs) - 1]"
    by (subst upto_rec1) (simp_all add: algebra_simps)
  with Cons show ?case by simp
qed

lemma new_pos_pid [simp]: "pid (new_pos L d) = pid d"
  by (simp add: new_pos_def split: option.splits)

lemma new_pos_fields [simp]:
  "event_id (new_pos L d) = event_id d" "user_id (new_pos L d) = user_id d"
  "pstatus (new_pos L d) = pstatus d" "joined_at (new_pos L d) = joined_at d"
  "user_name (new_pos L d) = user_name d"
  by (simp_all add: new_pos_def split: option.splits)

lemma new_pos_absent: "pid d \<notin> set (map (\<lambda>a. pid (snd a)) L) \<Longrightarrow> new_pos L d = d"
proof -
  assume "pid d \<notin> set (map (\<lambda>a. pid (snd a)) L)"
  then have "map_of (map (\<lambda>(n, p). (pid p, n)) L) (pid d) = None"
    by (induction L) auto
  then show ?thesis by (simp add: new_pos_def)
qed

lemma new_pos_Cons_same: "pid d = pid p \<Longrightarrow> new_pos ((n, p) # L) d = d\<lparr>position := n\<rparr>"
  by (simp add: new_pos_def)

lemma new_pos_Cons_other: "pid d \<noteq> pid p \<Longrightarrow> new_pos ((n, p) # L) d = new_pos L d"
  by (simp add: new_pos_def)

lemma pid_unique:
  "distinct (map pid ds) \<Longrightarrow> d \<in> set ds \<Longrightarrow> p \<in> set ds \<Longrightarrow> pid d = pid p \<Longrightarrow> d = p"
  by (metis distinct_map inj_onD)

lemma update_participant_present:
  "p \<in> set (participants w) \<Longrightarrow> pid p' = pid p \<Longrightarrow>
   update_participant w p' =
     Some (w\<lparr>participants := map (\<lambda>d. if pid d = pid p then p' else d) (participants w),
              writes := writes w @ [Updated ''participants'' (pid p)]\<rparr>)"
  by (auto simp: update_participant_def)

lemma pids_replace:
  "pid p' = pid p \<Longrightarrow> map pid (map (\<lambda>d. if pid d = pid p then p' else d) ds) = map pid ds"
  by (induction ds) auto

lemma update_positions_loop_result:
  assumes "distinct (map pid (participants w))"
    and "distinct (map (\<lambda>a. pid (snd a)) L)"
    and "snd ` set L \<subseteq> set (participants w)"
  shows "update_positions_loop w L =
           (True, w\<lparr>participants := map (new_pos L) (participants w),
                    writes := writes w @ changed_writes L\<rparr>)"
  using assms
proof (induction L arbitrary: w)
  case Nil
  have "map (new_pos []) (participants w) = participants w"
    by (rule map_idI) (simp add: new_pos_def)
  then show ?case by (simp add: changed_writes_def)
next
  case (Cons np L)
  obtain n p where np: "np = (n, p)" by (cases np)
  let ?ds = "participants w"
  have pin: "p \<in> set ?ds" using Cons.prems(3) np by auto
  have pnot: "pid p \<notin> set (map (\<lambda>a. pid (snd a)) L)" using Cons.prems(2) np by simp
  have dL: "distinct (map (\<lambda>a. pid (snd a)) L)" using Cons.prems(2) by simp
  show ?case
  proof (cases "position p = n")
    case True
    have sub: "snd ` set L \<subseteq> set ?ds" using Cons.prems(3) by auto
    have "map (new_pos ((n, p) # L)) ?ds = map (new_pos L) ?ds"
    proof (rule map_cong[OF refl])
      fix d assume d: "d \<in> set ?ds"
      show "new_pos ((n, p) # L) d = new_pos L d"
      proof (cases "pid d = pid p")
        case same: True
        then have "d = p" using pid_unique[OF Cons.prems(1) d pin] by simp
        then show ?thesis using True pnot by (simp add: new_pos_Cons_same new_pos_absent)
      next
        case False
        then show ?thesis by (simp add: new_pos_Cons_other)
      qed
    qed
    moreover have "changed_writes ((n, p) # L) = changed_writes L"
      using True by (simp add: changed_writes_def)
    ultimately show ?thesis using Cons.IH[OF Cons.prems(1) dL sub] True np by simp
  next
    case False
    let ?p' = "p\<lparr>position := n\<rparr>"
    let ?w1 = "w\<lparr>participants := map (\<lambda>d. if pid d = pid p then ?p' else d) ?ds,
                 writes := writes w @ [Updated ''participants'' (pid p)]\<rparr>"
    have up: "update_participant w ?p' = Some ?w1"
      using update_participant_present[OF pin, of ?p'] by simp
    have d1: "distinct (map pid (participants ?w1))"
    proof -
      have "map pid (participants ?w1) = map pid ?ds"
        using pids_replace[of ?p' p ?ds] by simp
      then show ?thesis using Cons.prems(1) by (simp only:)
    qed
    have sub1: "snd ` set L \<subseteq> set (participants ?w1)"
    proof
      fix q assume q: "q \<in> snd ` set L"
      then have "q \<in> set ?ds" using Cons.prems(3) by auto
      moreover have "pid q \<noteq> pid p" using q pnot by force
      ultimately show "q \<in> set (participants ?w1)" by force
    qed
    have "map (new_pos L) (participants ?w1) = map (new_pos ((n, p) # L)) ?ds"
    proof -
      have "map (new_pos L) (participants ?w1)
            = map (\<lambda>d. new_pos L (if pid d = pid p then ?p' else d)) ?ds" by (simp add: comp_def)
      also have "\<dots> = map (new_pos ((n, p) # L)) ?ds"
      proof (rule map_cong[OF refl])
        fix d assume d: "d \<in> set ?ds"
        show "new_pos L (if pid d = pid p then ?p' else d) = new_pos ((n, p) # L) d"
        proof (cases "pid d = pid p")
          case True
          then have "d = p" using pid_unique[OF Cons.prems(1) d pin] by simp
          moreover have "new_pos L ?p' = ?p'" using pnot by (intro new_pos_absent) simp
          ultimately show ?thesis by (simp add: new_pos_Cons_same)
        next
          case False
          then show ?thesis by (simp add: new_pos_Cons_other)
        qed
      qed
      finally show ?thesis .
    qed
    moreover have "changed_writes ((n, p) # L) = Updated ''participants'' (pid p) # changed_writes L"
      using False by (simp add: changed_writes_def)
    ultimately show ?thesis using Cons.IH[OF d1 dL sub1] False np up by simp
  qed
qed

lemma get_waitlist_None:
  "get_waitlist w i None = sort_key position (filter (on_waitlist i) (participants w))"
  by (simp add: get_waitlist_def query_documents_def on_waitlist_def[abs_def])

lemma on_waitlist_new_pos [simp]: "on_waitlist i (new_pos L d) = on_waitlist i d"
  by (simp add: on_waitlist_def)

lemma distinct_pid_sort_filter:
  "distinct (map pid ds) \<Longrightarrow> distinct (map pid (sort_key f (filter P ds)))"
proof -
  assume "distinct (map pid ds)"
  then have "distinct (map pid (filter P ds))" by (rule distinct_map_filter)
  moreover have "mset (map pid (sort_key f (filter P ds))) = mset (map pid (filter P ds))"
    by simp
  ultimately show ?thesis by (metis mset_eq_imp_distinct_iff)
qed

lemma distinct_pid_waitlist:
  "distinct (map pid (participants w)) \<Longrightarrow> distinct (map pid (get_waitlist w i None))"
  by (simp add: get_waitlist_None distinct_pid_sort_filter)

lemma set_get_waitlist:
  "set (get_waitlist w i None) = {p \<in> set (participants w). on_waitlist i p}"
  by (auto simp: get_waitlist_None)

lemma pid_enumerate_from:
  "map (\<lambda>a. pid (snd a)) (enumerate_from n xs) = map pid xs"
  by (induction xs arbitrary: n) auto

lemma new_pos_enumerate:
  "distinct (map pid xs) \<Longrightarrow>
   map (new_pos (enumerate_from n xs)) xs = map (\<lambda>(n, p). p\<lparr>position := n\<rparr>) (enumerate_from n xs)"
proof (induction xs arbitrary: n)
  case Nil
  then show ?case by simp
next
  case (Cons x xs)
  have e: "map (new_pos ((n, x) # enumerate_from (n + 1) xs)) xs = map (new_pos (enumerate_from (n + 1) xs)) xs"
  proof (rule map_cong[OF refl])
    fix d assume d: "d \<in> set xs"
    have "pid x \<notin> pid ` set xs" using Cons.prems by simp
    with d have "pid d \<noteq> pid x" by (metis imageI)
    then show "new_pos ((n, x) # enumerate_from (n + 1) xs) d = new_pos (enumerate_from (n + 1) xs) d"
      by (rule new_pos_Cons_other)
  qed
  have d: "distinct (map pid xs)" using Cons.prems by simp
  have h: "new_pos ((n, x) # enumerate_from (n + 1) xs) x = x\<lparr>position := n\<rparr>"
    by (simp add: new_pos_Cons_same)
  show ?case
    by (simp only: enumerate_from.simps list.map e Cons.IH[OF d] h prod.case)
qed

lemma position_renumber: "map position (renumber xs) = [1..int (length xs)]"
proof -
  have "map position (renumber xs) = map fst (enumerate_from 1 xs)"
    by (simp add: renumber_def comp_def case_prod_beta)
  then show ?thesis by (simp add: fst_enumerate_from)
qed

lemma pid_renumber [simp]: "map pid (renumber xs) = map pid xs"
proof -
  have "map pid (renumber xs) = map (\<lambda>a. pid (snd a)) (enumerate_from 1 xs)"
    by (simp add: renumber_def comp_def case_prod_beta)
  then show ?thesis by (simp add: pid_enumerate_from)
qed

lemma length_renumber [simp]: "length (renumber xs) = length xs"
  by (simp add: renumber_def)

lemma update_waitlist_positions_result:
  assumes "distinct (map pid (participants w))"
  shows "update_waitlist_positions w i =
           (True, w\<lparr>participants := map (new_pos (enumerate_from 1 (get_waitlist w i None))) (participants w),
                    writes := writes w @ changed_writes (enumerate_from 1 (get_waitlist w i None))\<rparr>)"
  unfolding update_waitlist_positions_def
proof (rule update_positions_loop_result[OF assms])
  show "distinct (map (\<lambda>a. pid (snd a)) (enumerate_from 1 (get_waitlist w i None)))"
    using distinct_pid_waitlist[OF assms, of i] by (simp add: pid_enumerate_from)
  have "snd ` set (enumerate_from 1 (get_waitlist w i None)) = set (get_waitlist w i None)"
    by (metis set_map snd_enumerate_from)
  then show "snd ` set (enumerate_from 1 (get_waitlist w i None)) \<subseteq> set (participants w)"
    by (auto simp: set_get_waitlist)
qed

lemma sort_renumbered:
  assumes "distinct (map pid ds)"
  shows "sort_key position
           (filter (on_waitlist i)
              (map (new_pos (enumerate_from 1 (sort_key position (filter (on_waitlist i) ds)))) ds))
         = renumber (sort_key position (filter (on_waitlist i) ds))"
proof -
  let ?F = "filter (on_waitlist i) ds"
  let ?W = "sort_key position ?F"
  let ?L = "enumerate_from 1 ?W"
  have dW: "distinct (map pid ?W)" using assms by (rule distinct_pid_sort_filter)
  have r: "renumber ?W = map (new_pos ?L) ?W"
    using new_pos_enumerate[OF dW, of 1] by (simp add: renumber_def)
  have f: "filter (on_waitlist i) (map (new_pos ?L) ds) = map (new_pos ?L) ?F"
    by (simp add: filter_map comp_def)
  have m: "mset (map (new_pos ?L) ?F) = mset (renumber ?W)"
    unfolding r by simp
  have "distinct (map position (renumber ?W))" by (simp add: position_renumber)
  then have "inj_on position (set (renumber ?W))" by (simp add: distinct_map)
  moreover have "set (map (new_pos ?L) ?F) = set (renumber ?W)" using m by (rule mset_eq_setD)
  ultimately have inj: "inj_on position (set (map (new_pos ?L) ?F))" by simp
  have s: "sorted (map position (renumber ?W))" by (simp add: position_renumber)
  show ?thesis unfolding f using m inj s by (rule sort_key_inj_key_eq)
qed

lemma get_waitlist_update_waitlist_positions:
  assumes "distinct (map pid (participants w))"
  shows "get_waitlist (snd (update_waitlist_positions w i)) i None = renumber (get_waitlist w i None)"
  using sort_renumbered[OF assms, of i]
  by (simp add: update_waitlist_positions_result[OF assms] get_waitlist_None)

lemma changed_writes_zip:
  "map (\<lambda>(p, p'). Updated ''participants'' (pid p))
     (filter (\<lambda>(p, p'). position p \<noteq> position p')
        (zip xs (map (\<lambda>(n, p). p\<lparr>position := n\<rparr>) (enumerate_from n xs))))
   = changed_writes (enumerate_from n xs)"
  by (induction xs arbitrary: n) (auto simp: changed_writes_def)

lemma renumber_only_position:
  "map (\<lambda>p. p\<lparr>position := 0\<rparr>) (map (\<lambda>(n, p). p\<lparr>position := n\<rparr>) (enumerate_from n xs))
   = map (\<lambda>p. p\<lparr>position := 0\<rparr>) xs"
  by (induction xs arbitrary: n) auto

lemma update_waitlist_positions_world:
  assumes "distinct (map pid (participants w))"
  shows "events (snd (update_waitlist_positions w i)) = events w"
    and "map pid (participants (snd (update_waitlist_positions w i))) = map pid (participants w)"
    and "outbox (snd (update_waitlist_positions w i)) = outbox w"
  by (simp_all add: update_waitlist_positions_result[OF assms] comp_def)

text \<open>
  C8. In a store whose document ids are distinct, \<^verbatim>\<open>_update_waitlist_positions\<close> succeeds
  and leaves the event's waitlist with the positions 1..N, N its length before; the
  records and their order are the ones before, only positions differ; and the writes it
  adds are one update for each record whose position differs before and after, in
  waitlist order.
\<close>

theorem resequence_waitlist_contiguous:
  assumes "distinct (map pid (participants w))"
  shows "fst (update_waitlist_positions w i)
       \<and> map position (get_waitlist (snd (update_waitlist_positions w i)) i None)
           = [1..int (length (get_waitlist w i None))]
       \<and> map (\<lambda>p. p\<lparr>position := 0\<rparr>) (get_waitlist (snd (update_waitlist_positions w i)) i None)
           = map (\<lambda>p. p\<lparr>position := 0\<rparr>) (get_waitlist w i None)
       \<and> writes (snd (update_waitlist_positions w i))
           = writes w @ map (\<lambda>(p, p'). Updated ''participants'' (pid p))
               (filter (\<lambda>(p, p'). position p \<noteq> position p')
                  (zip (get_waitlist w i None)
                       (get_waitlist (snd (update_waitlist_positions w i)) i None)))"
proof -
  let ?W = "get_waitlist w i None"
  let ?w' = "snd (update_waitlist_positions w i)"
  have g: "get_waitlist ?w' i None = renumber ?W"
    using assms by (rule get_waitlist_update_waitlist_positions)
  have a: "fst (update_waitlist_positions w i)"
    by (simp add: update_waitlist_positions_result[OF assms])
  have b: "map position (get_waitlist ?w' i None) = [1..int (length ?W)]"
    by (simp add: g position_renumber)
  have c: "map (\<lambda>p. p\<lparr>position := 0\<rparr>) (get_waitlist ?w' i None) = map (\<lambda>p. p\<lparr>position := 0\<rparr>) ?W"
    unfolding g renumber_def by (rule renumber_only_position)
  have d: "writes ?w' = writes w @ map (\<lambda>(p, p'). Updated ''participants'' (pid p))
               (filter (\<lambda>(p, p'). position p \<noteq> position p') (zip ?W (get_waitlist ?w' i None)))"
    unfolding g renumber_def changed_writes_zip
    by (simp add: update_waitlist_positions_result[OF assms])
  from a b c d show ?thesis by blast
qed

theorem resequence_waitlist_contiguous_witness:
  "distinct (map pid (participants gap_world))
   \<and> get_waitlist gap_world ''e1'' None = [dave\<lparr>position := 1\<rparr>, carol\<lparr>position := 3\<rparr>]
   \<and> fst (update_waitlist_positions gap_world ''e1'')
   \<and> map position (get_waitlist (snd (update_waitlist_positions gap_world ''e1'')) ''e1'' None) = [1, 2]
   \<and> map user_id (get_waitlist (snd (update_waitlist_positions gap_world ''e1'')) ''e1'' None)
       = [''104'', ''103'']
   \<and> writes (snd (update_waitlist_positions gap_world ''e1'')) = [Updated ''participants'' ''p9'']"
proof -
  have h: "distinct (map pid (participants gap_world))"
    by (simp add: gap_world_def fixture_defs)
  have g: "get_waitlist gap_world ''e1'' None = [dave\<lparr>position := 1\<rparr>, carol\<lparr>position := 3\<rparr>]"
    by (simp add: gap_world_def get_waitlist_def query_documents_def fixture_defs)
  note t = resequence_waitlist_contiguous[OF h, of "''e1''"]
  let ?W' = "get_waitlist (snd (update_waitlist_positions gap_world ''e1'')) ''e1'' None"
  have p: "map position ?W' = [1, 2]"
    using t by (simp add: g upto_rec1)
  have z: "map (\<lambda>p. p\<lparr>position := 0\<rparr>) ?W' = [dave\<lparr>position := 0\<rparr>, carol\<lparr>position := 0\<rparr>]"
    using t by (simp add: g)
  have "map user_id (map (\<lambda>p. p\<lparr>position := 0\<rparr>) ?W') = [''104'', ''103'']"
    unfolding z by (simp add: fixture_defs)
  then have u: "map user_id ?W' = [''104'', ''103'']" by (simp add: comp_def)
  have "map pid (map (\<lambda>p. p\<lparr>position := 0\<rparr>) ?W') = [''p1'', ''p9'']"
    unfolding z by (simp add: fixture_defs)
  then have i: "map pid ?W' = [''p1'', ''p9'']" by (simp add: comp_def)
  obtain a b where ab: "?W' = [a, b]" using p by (auto simp: map_eq_Cons_conv)
  have wr: "writes (snd (update_waitlist_positions gap_world ''e1'')) = [Updated ''participants'' ''p9'']"
    using t p i unfolding g ab by (simp add: gap_world_def fixture_defs)
  from h g t p u wr show ?thesis by simp
qed

section \<open>Capacity increase\<close>

lemma get_participants_eq:
  "get_participants w i = sort_key joined_at (filter (on_joined i) (participants w))"
  by (simp add: get_participants_def query_documents_def on_joined_def[abs_def])

lemma set_get_participants:
  "set (get_participants w i) = {p \<in> set (participants w). on_joined i p}"
  by (auto simp: get_participants_eq)

lemma get_participant_by_user_unique:
  assumes "one_record_per_user w" and "p \<in> set (participants w)"
  shows "get_participant_by_user w (event_id p) (user_id p) = Some p"
proof -
  let ?P = "\<lambda>q. event_id q = event_id p \<and> user_id q = user_id p"
  from assms(2) obtain q where q: "find ?P (participants w) = Some q"
    by (cases "find ?P (participants w)") (auto simp: find_None_iff)
  then have "q \<in> set (participants w)" "?P q"
    by (auto simp: find_Some_iff)
  then have "(event_id q, user_id q) = (event_id p, user_id p)" by simp
  with assms \<open>q \<in> set (participants w)\<close> have "q = p"
    unfolding one_record_per_user_def by (metis (mono_tags, lifting) distinct_map inj_onD)
  with q show ?thesis by (simp add: get_participant_by_user_find)
qed

lemma filter_replace_out:
  "\<not> P p' \<Longrightarrow>
   filter P (map (\<lambda>d. if pid d = pid p then p' else d) ds) = filter (\<lambda>d. pid d \<noteq> pid p) (filter P ds)"
  by (induction ds) auto

lemma mset_filter_replace_in:
  "distinct (map pid ds) \<Longrightarrow> p \<in> set ds \<Longrightarrow> \<not> P p \<Longrightarrow> P p' \<Longrightarrow>
   mset (filter P (map (\<lambda>d. if pid d = pid p then p' else d) ds)) = add_mset p' (mset (filter P ds))"
proof (induction ds)
  case Nil
  then show ?case by simp
next
  case (Cons a ds)
  show ?case
  proof (cases "a = p")
    case True
    have "pid p \<notin> pid ` set ds" using Cons.prems(1) True by simp
    then have "map (\<lambda>d. if pid d = pid p then p' else d) ds = ds"
      by (intro map_idI) (auto simp: image_iff)
    then show ?thesis using True Cons.prems by simp
  next
    case False
    then have pin: "p \<in> set ds" using Cons.prems(2) by simp
    have "pid a \<notin> pid ` set ds" using Cons.prems(1) by simp
    with pin have "pid a \<noteq> pid p" by (metis imageI)
    then show ?thesis using Cons.IH[OF _ pin Cons.prems(3,4)] Cons.prems(1) by simp
  qed
qed

lemma filter_map_stable:
  assumes "\<And>d. d \<in> set ds \<Longrightarrow> P (f d) = P d" and "\<And>d. d \<in> set ds \<Longrightarrow> P d \<Longrightarrow> f d = d"
  shows "filter P (map f ds) = filter P ds"
  using assms by (induction ds) auto

lemma keys_replace:
  "event_id p' = event_id p \<Longrightarrow> user_id p' = user_id p \<Longrightarrow> pid p' = pid p \<Longrightarrow>
   distinct (map pid ds) \<Longrightarrow> p \<in> set ds \<Longrightarrow>
   map (\<lambda>q. (event_id q, user_id q)) (map (\<lambda>d. if pid d = pid p then p' else d) ds)
     = map (\<lambda>q. (event_id q, user_id q)) ds"
proof -
  assume a: "event_id p' = event_id p" "user_id p' = user_id p" "pid p' = pid p"
    "distinct (map pid ds)" "p \<in> set ds"
  have "\<And>d. d \<in> set ds \<Longrightarrow>
     (event_id (if pid d = pid p then p' else d), user_id (if pid d = pid p then p' else d))
       = (event_id d, user_id d)"
    using a pid_unique[OF a(4) _ a(5)] by auto
  then show ?thesis by (simp add: comp_def)
qed

lemma keys_new_pos:
  "map (\<lambda>q. (event_id q, user_id q)) (map (new_pos L) ds) = map (\<lambda>q. (event_id q, user_id q)) ds"
  by (simp add: comp_def)

lemma pids_new_pos: "map pid (map (new_pos L) ds) = map pid ds"
  by (simp add: comp_def)

lemma new_pos_not_waitlisted:
  assumes "distinct (map pid (participants w))" and "d \<in> set (participants w)"
    and "\<not> on_waitlist i d"
  shows "new_pos (enumerate_from n (get_waitlist w i None)) d = d"
proof (rule new_pos_absent)
  show "pid d \<notin> set (map (\<lambda>a. pid (snd a)) (enumerate_from n (get_waitlist w i None)))"
  proof
    assume "pid d \<in> set (map (\<lambda>a. pid (snd a)) (enumerate_from n (get_waitlist w i None)))"
    then have "pid d \<in> pid ` set (get_waitlist w i None)"
      by (simp add: pid_enumerate_from)
    then obtain q where q: "q \<in> set (get_waitlist w i None)" "pid d = pid q" by auto
    then have "q \<in> set (participants w)" "on_waitlist i q" by (auto simp: set_get_waitlist)
    with q pid_unique[OF assms(1,2)] assms(3) show False by auto
  qed
qed

lemma get_participants_update_waitlist_positions:
  assumes "distinct (map pid (participants w))"
  shows "get_participants (snd (update_waitlist_positions w i)) j = get_participants w j"
proof -
  let ?L = "enumerate_from 1 (get_waitlist w i None)"
  have "filter (on_joined j) (map (new_pos ?L) (participants w)) = filter (on_joined j) (participants w)"
  proof (rule filter_map_stable)
    fix d assume d: "d \<in> set (participants w)"
    show "on_joined j (new_pos ?L d) = on_joined j d" by (simp add: on_joined_def)
    assume "on_joined j d"
    then have "\<not> on_waitlist i d" by (simp add: on_joined_def on_waitlist_def)
    then show "new_pos ?L d = d" using assms d by (rule new_pos_not_waitlisted[rotated 2])
  qed
  then show ?thesis
    by (simp add: update_waitlist_positions_result[OF assms] get_participants_eq)
qed

lemma get_waitlist_cong:
  "participants w1 = participants w2 \<Longrightarrow> get_waitlist w1 i l = get_waitlist w2 i l"
  by (simp add: get_waitlist_def)

lemma get_participants_cong:
  "participants w1 = participants w2 \<Longrightarrow> get_participants w1 i = get_participants w2 i"
  by (simp add: get_participants_def)

lemma participants_update_waitlist_positions:
  assumes "distinct (map pid (participants w))"
  shows "map pid (participants (snd (update_waitlist_positions w i))) = map pid (participants w)"
    and "map (\<lambda>q. (event_id q, user_id q)) (participants (snd (update_waitlist_positions w i)))
           = map (\<lambda>q. (event_id q, user_id q)) (participants w)"
  by (simp_all add: update_waitlist_positions_result[OF assms] comp_def)

lemma promote_head:
  assumes h1: "distinct (map pid (participants w))"
    and h2: "one_record_per_user w"
    and wl: "get_waitlist w i None = p # rest"
  shows "fst (promote_from_waitlist now w i (user_id p))"
    and "get_waitlist (snd (promote_from_waitlist now w i (user_id p))) i None = renumber rest"
    and "mset (get_participants (snd (promote_from_waitlist now w i (user_id p))) i)
           = add_mset (promoted p) (mset (get_participants w i))"
    and "distinct (map pid (participants (snd (promote_from_waitlist now w i (user_id p)))))"
    and "one_record_per_user (snd (promote_from_waitlist now w i (user_id p)))"
proof -
  let ?ds = "participants w"
  let ?p' = "p\<lparr>pstatus := JOINED, position := 0\<rparr>"
  let ?ds1 = "map (\<lambda>d. if pid d = pid p then ?p' else d) ?ds"
  let ?w1 = "w\<lparr>participants := ?ds1, writes := writes w @ [Updated ''participants'' (pid p)]\<rparr>"
  let ?w2 = "snd (increment_participant_count now ?w1 i)"
  let ?w3 = "snd (update_waitlist_positions ?w2 i)"
  have "p \<in> set (get_waitlist w i None)" using wl by simp
  then have pin: "p \<in> set ?ds" and pw: "on_waitlist i p" by (auto simp: set_get_waitlist)
  have ev: "event_id p = i" and st: "pstatus p = WAITLIST" using pw by (auto simp: on_waitlist_def)
  have bu: "get_participant_by_user w i (user_id p) = Some p"
    using get_participant_by_user_unique[OF h2 pin] ev by simp
  have up: "update_participant w ?p' = Some ?w1"
    using update_participant_present[OF pin, of ?p'] by simp
  have res: "promote_from_waitlist now w i (user_id p) = (True, ?w3)"
    by (simp add: promote_from_waitlist_def bu st up Let_def)
  have p2: "participants ?w2 = ?ds1" by simp
  have "map pid ?ds1 = map pid ?ds" by (rule pids_replace) simp
  then have d1: "distinct (map pid ?ds1)" using h1 by (simp only:)
  have d2: "distinct (map pid (participants ?w2))" using d1 by (simp only: p2)
  show "fst (promote_from_waitlist now w i (user_id p))" by (simp add: res)
  have "filter (on_waitlist i) ?ds1 = filter (\<lambda>d. pid d \<noteq> pid p) (filter (on_waitlist i) ?ds)"
    by (rule filter_replace_out) (simp add: on_waitlist_def)
  then have "get_waitlist ?w2 i None = filter (\<lambda>d. pid d \<noteq> pid p) (get_waitlist w i None)"
    by (simp add: get_waitlist_None filter_sort)
  moreover have "filter (\<lambda>d. pid d \<noteq> pid p) (p # rest) = rest"
  proof -
    have "distinct (map pid (p # rest))" using distinct_pid_waitlist[OF h1, of i] wl by simp
    then have "pid p \<notin> pid ` set rest" by simp
    then have "\<And>d. d \<in> set rest \<Longrightarrow> pid d \<noteq> pid p" by (metis imageI)
    then show ?thesis by (simp add: filter_id_conv)
  qed
  ultimately have w2: "get_waitlist ?w2 i None = rest" using wl by simp
  show "get_waitlist (snd (promote_from_waitlist now w i (user_id p))) i None = renumber rest"
    using get_waitlist_update_waitlist_positions[OF d2, of i] w2 by (simp add: res)
  have "mset (filter (on_joined i) ?ds1) = add_mset ?p' (mset (filter (on_joined i) ?ds))"
    using h1 pin by (rule mset_filter_replace_in) (simp_all add: on_joined_def st ev)
  then have "mset (get_participants ?w2 i) = add_mset ?p' (mset (get_participants w i))"
    by (simp add: get_participants_eq)
  then show "mset (get_participants (snd (promote_from_waitlist now w i (user_id p))) i)
           = add_mset (promoted p) (mset (get_participants w i))"
    using get_participants_update_waitlist_positions[OF d2, of i i] by (simp add: res promoted_def)
  have s3: "snd (promote_from_waitlist now w i (user_id p)) = ?w3" by (simp add: res)
  have "map pid (participants ?w3) = map pid (participants ?w2)"
    using participants_update_waitlist_positions(1)[OF d2, of i] .
  then show "distinct (map pid (participants (snd (promote_from_waitlist now w i (user_id p)))))"
    unfolding s3 using d2 by (simp only:)
  have k1: "map (\<lambda>q. (event_id q, user_id q)) ?ds1 = map (\<lambda>q. (event_id q, user_id q)) ?ds"
    using h1 pin by (intro keys_replace) simp_all
  have k3: "map (\<lambda>q. (event_id q, user_id q)) (participants ?w3)
          = map (\<lambda>q. (event_id q, user_id q)) (participants ?w2)"
    using participants_update_waitlist_positions(2)[OF d2, of i] .
  have "map (\<lambda>q. (event_id q, user_id q)) (participants ?w3) = map (\<lambda>q. (event_id q, user_id q)) ?ds"
    using k3 k1 by (simp only: p2)
  then show "one_record_per_user (snd (promote_from_waitlist now w i (user_id p)))"
    unfolding s3 one_record_per_user_def using h2[unfolded one_record_per_user_def] by (simp only:)
qed

lemma user_id_renumber [simp]: "map user_id (renumber xs) = map user_id xs"
proof -
  have "map user_id (map (\<lambda>(n, p). p\<lparr>position := n\<rparr>) (enumerate_from n xs)) = map user_id xs" for n
    by (induction xs arbitrary: n) auto
  then show ?thesis by (simp add: renumber_def)
qed

lemma promoted_renumber [simp]: "map promoted (renumber xs) = map promoted xs"
proof -
  have "map promoted (map (\<lambda>(n, p). p\<lparr>position := n\<rparr>) (enumerate_from n xs)) = map promoted xs" for n
    by (induction xs arbitrary: n) (auto simp: promoted_def)
  then show ?thesis by (simp add: renumber_def)
qed

lemma drop_enumerate_from:
  "drop k (enumerate_from b xs) = enumerate_from (b + int k) (drop k xs)"
proof (induction xs arbitrary: k b)
  case Nil
  then show ?case by simp
next
  case (Cons x xs)
  show ?case
  proof (cases k)
    case 0
    then show ?thesis by simp
  next
    case (Suc j)
    then show ?thesis using Cons[of j "b + 1"] by (simp add: algebra_simps)
  qed
qed

lemma renumber_twice:
  "map (\<lambda>(n, p). p\<lparr>position := n\<rparr>)
     (enumerate_from a (map (\<lambda>(n, p). p\<lparr>position := n\<rparr>) (enumerate_from b xs)))
   = map (\<lambda>(n, p). p\<lparr>position := n\<rparr>) (enumerate_from a xs)"
  by (induction xs arbitrary: a b) auto

lemma renumber_drop_renumber: "renumber (drop k (renumber xs)) = renumber (drop k xs)"
  by (simp add: renumber_def drop_map drop_enumerate_from renumber_twice)

lemma promote_loop_prefix:
  assumes "distinct (map pid (participants w))" and "one_record_per_user w"
    and "k \<le> length (get_waitlist w i None)"
  shows "get_waitlist (promote_loop now w i (map user_id (take k (get_waitlist w i None)))) i None
           = (if k = 0 then get_waitlist w i None else renumber (drop k (get_waitlist w i None)))
       \<and> mset (get_participants (promote_loop now w i (map user_id (take k (get_waitlist w i None)))) i)
           = mset (get_participants w i) + mset (map promoted (take k (get_waitlist w i None)))
       \<and> distinct (map pid (participants (promote_loop now w i (map user_id (take k (get_waitlist w i None))))))
       \<and> one_record_per_user (promote_loop now w i (map user_id (take k (get_waitlist w i None))))"
  using assms
proof (induction k arbitrary: w)
  case 0
  then show ?case by simp
next
  case (Suc k)
  then obtain p rest where wl: "get_waitlist w i None = p # rest"
    by (cases "get_waitlist w i None") auto
  let ?w1 = "snd (promote_from_waitlist now w i (user_id p))"
  note ph = promote_head[OF Suc.prems(1,2) wl, of now]
  have len: "k \<le> length (get_waitlist ?w1 i None)"
    using Suc.prems(3) wl ph(2) by simp
  have us: "map user_id (take k (renumber rest)) = map user_id (take k rest)"
    by (simp add: take_map[symmetric])
  have pr: "map promoted (take k (renumber rest)) = map promoted (take k rest)"
    by (simp add: take_map[symmetric])
  have loop: "promote_loop now w i (map user_id (take (Suc k) (get_waitlist w i None)))
            = promote_loop now ?w1 i (map user_id (take k rest))"
    by (simp add: wl)
  from Suc.IH[OF ph(4) ph(5) len, unfolded ph(2) us pr]
  have ih: "get_waitlist (promote_loop now ?w1 i (map user_id (take k rest))) i None
              = (if k = 0 then renumber rest else renumber (drop k (renumber rest)))"
    "mset (get_participants (promote_loop now ?w1 i (map user_id (take k rest))) i)
       = mset (get_participants ?w1 i) + mset (map promoted (take k rest))"
    "distinct (map pid (participants (promote_loop now ?w1 i (map user_id (take k rest)))))"
    "one_record_per_user (promote_loop now ?w1 i (map user_id (take k rest)))"
    by blast+
  have a: "get_waitlist (promote_loop now ?w1 i (map user_id (take k rest))) i None
             = renumber (drop (Suc k) (get_waitlist w i None))"
    using ih(1) by (simp add: wl renumber_drop_renumber)
  have b: "mset (get_participants (promote_loop now ?w1 i (map user_id (take k rest))) i)
             = mset (get_participants w i) + mset (map promoted (take (Suc k) (get_waitlist w i None)))"
    using ih(2) ph(3) by (simp add: wl)
  show ?case unfolding loop using a b ih(3,4) by simp
qed

lemma promote_loop_participants_length:
  assumes "distinct (map pid (participants w))" and "one_record_per_user w"
    and "k \<le> length (get_waitlist w i None)"
  shows "length (get_participants (promote_loop now w i (map user_id (take k (get_waitlist w i None)))) i)
           = length (get_participants w i) + k"
proof -
  from promote_loop_prefix[OF assms, of now]
  have "mset (get_participants (promote_loop now w i (map user_id (take k (get_waitlist w i None)))) i)
           = mset (get_participants w i) + mset (map promoted (take k (get_waitlist w i None)))"
    by blast
  then have "size (mset (get_participants (promote_loop now w i (map user_id (take k (get_waitlist w i None)))) i))
           = size (mset (get_participants w i) + mset (map promoted (take k (get_waitlist w i None))))"
    by (simp only:)
  then show ?thesis using assms(3) by simp
qed

lemma sorted_get_waitlist: "sorted (map position (get_waitlist w i l))"
  by (simp add: get_waitlist_def)

text \<open>
  C3. In a store with distinct document ids and one record per user and event, a capacity
  increase with available = new\_max - joined count > 0 and a non-empty waitlist runs
  n = min(available, waitlist length) promotions, on the first n records of the waitlist
  sorted by ascending position, one after the other in that order: after the k-th
  promotion (k up to n) the waitlist is the old one without its first k records,
  renumbered from 1, and the joined records are the old ones plus those k, each JOINED
  with position 0. The event returned counts joined + n participants.
\<close>

theorem capacity_increase_promotes_front:
  assumes "distinct (map pid (participants w))" and "one_record_per_user w"
    and "old_max < max_participants event"
    and "0 < max_participants event - int (length (get_participants w (eid event)))"
    and "get_waitlist w (eid event) None \<noteq> []"
  shows "(let i = eid event;
              joined = get_participants w i;
              waitlist = get_waitlist w i None;
              n = nat (min (max_participants event - int (length joined)) (int (length waitlist)));
              (event', w') = handle_capacity_change now w event old_max
          in 0 < n \<and> n \<le> length waitlist
           \<and> sorted (map position waitlist)
           \<and> w' = promote_loop now w i (map user_id (take n waitlist))
           \<and> (\<forall>k. k \<le> n \<longrightarrow>
                 get_waitlist (promote_loop now w i (map user_id (take k waitlist))) i None
                   = (if k = 0 then waitlist else renumber (drop k waitlist))
               \<and> mset (get_participants (promote_loop now w i (map user_id (take k waitlist))) i)
                   = mset joined + mset (map promoted (take k waitlist)))
           \<and> get_waitlist w' i None = renumber (drop n waitlist)
           \<and> mset (get_participants w' i) = mset joined + mset (map promoted (take n waitlist))
           \<and> current_participants event' = int (length joined) + int n)"
proof -
  let ?i = "eid event"
  let ?J = "get_participants w ?i"
  let ?W = "get_waitlist w ?i None"
  define n where "n = nat (min (max_participants event - int (length ?J)) (int (length ?W)))"
  let ?w' = "promote_loop now w ?i (map user_id (take n ?W))"
  have len: "0 < length ?W" using assms(5) by simp
  have n: "0 < n" "n \<le> length ?W" using assms(4) len by (auto simp: n_def)
  have h: "handle_capacity_change now w event old_max
         = (event\<lparr>current_participants := int (length (get_participants ?w' ?i))\<rparr>, ?w')"
    using assms(3,4,5) by (simp add: handle_capacity_change_def Let_def n_def)
  have pre: "\<forall>k. k \<le> n \<longrightarrow>
       get_waitlist (promote_loop now w ?i (map user_id (take k ?W))) ?i None
          = (if k = 0 then ?W else renumber (drop k ?W))
     \<and> mset (get_participants (promote_loop now w ?i (map user_id (take k ?W))) ?i)
          = mset ?J + mset (map promoted (take k ?W))"
  proof (intro allI impI)
    fix k assume "k \<le> n"
    then have "k \<le> length ?W" using n(2) by linarith
    from promote_loop_prefix[OF assms(1,2) this, of now]
    show "get_waitlist (promote_loop now w ?i (map user_id (take k ?W))) ?i None
          = (if k = 0 then ?W else renumber (drop k ?W))
     \<and> mset (get_participants (promote_loop now w ?i (map user_id (take k ?W))) ?i)
          = mset ?J + mset (map promoted (take k ?W))" by blast
  qed
  have fin: "get_waitlist ?w' ?i None = renumber (drop n ?W)"
    "mset (get_participants ?w' ?i) = mset ?J + mset (map promoted (take n ?W))"
    using pre n(1) by auto
  have cnt: "int (length (get_participants ?w' ?i)) = int (length ?J) + int n"
    using promote_loop_participants_length[OF assms(1,2) n(2), of now] by simp
  have srt: "sorted (map position ?W)" by (rule sorted_get_waitlist)
  have ev: "current_participants (event\<lparr>current_participants := int (length (get_participants ?w' ?i))\<rparr>)
           = int (length ?J) + int n" using cnt by simp
  show ?thesis
    unfolding Let_def h prod.case n_def[symmetric]
    using n srt pre fin ev by blast
qed

theorem capacity_increase_promotes_front_witness:
  "distinct (map pid (participants crowded_world))
   \<and> one_record_per_user crowded_world
   \<and> 2 < max_participants (game_night_full\<lparr>max_participants := 4\<rparr>)
   \<and> get_participants crowded_world ''e1'' = [alice, bob]
   \<and> get_waitlist crowded_world ''e1'' None = [carol, dave, erin]
   \<and> get_waitlist (snd (handle_capacity_change 60 crowded_world (game_night_full\<lparr>max_participants := 4\<rparr>) 2))
         ''e1'' None = [erin\<lparr>position := 1\<rparr>]
   \<and> mset (get_participants
         (snd (handle_capacity_change 60 crowded_world (game_night_full\<lparr>max_participants := 4\<rparr>) 2)) ''e1'')
       = {#alice, bob, promoted carol, promoted dave#}
   \<and> current_participants
         (fst (handle_capacity_change 60 crowded_world (game_night_full\<lparr>max_participants := 4\<rparr>) 2)) = 4"
proof -
  let ?ev = "game_night_full\<lparr>max_participants := 4\<rparr>"
  have e: "eid ?ev = ''e1''" "max_participants ?ev = 4"
    by (simp_all add: game_night_full_def fixture_defs)
  have h1: "distinct (map pid (participants crowded_world))"
    by (simp add: crowded_world_def erin_def fixture_defs)
  have h2: "one_record_per_user crowded_world"
    by (simp add: one_record_per_user_def crowded_world_def erin_def fixture_defs)
  have h3: "2 < max_participants ?ev" by (simp add: e)
  have j: "get_participants crowded_world ''e1'' = [alice, bob]"
    by (simp add: get_participants_def query_documents_def crowded_world_def erin_def fixture_defs)
  have wl: "get_waitlist crowded_world ''e1'' None = [carol, dave, erin]"
    by (simp add: get_waitlist_def query_documents_def crowded_world_def erin_def fixture_defs)
  have h4: "0 < max_participants ?ev - int (length (get_participants crowded_world (eid ?ev)))"
    by (simp add: e j)
  have h5: "get_waitlist crowded_world (eid ?ev) None \<noteq> []" by (simp add: e wl)
  have n2: "nat (min (4 - int (length [alice, bob])) (int (length [carol, dave, erin]))) = 2"
    by simp
  note t = capacity_increase_promotes_front[OF h1 h2 h3 h4 h5, of 60,
      unfolded Let_def case_prod_beta e j wl n2]
  have r: "renumber (drop 2 [carol, dave, erin]) = [erin\<lparr>position := 1\<rparr>]"
    by (simp add: renumber_def)
  have m: "mset [alice, bob] + mset (map promoted (take 2 [carol, dave, erin]))
         = {#alice, bob, promoted carol, promoted dave#}" by simp
  have c: "int (length [alice, bob]) + int 2 = 4" by simp
  from t have "get_waitlist (snd (handle_capacity_change 60 crowded_world ?ev 2)) ''e1'' None
                 = renumber (drop 2 [carol, dave, erin])"
    and "mset (get_participants (snd (handle_capacity_change 60 crowded_world ?ev 2)) ''e1'')
                 = mset [alice, bob] + mset (map promoted (take 2 [carol, dave, erin]))"
    and "current_participants (fst (handle_capacity_change 60 crowded_world ?ev 2))
                 = int (length [alice, bob]) + int 2"
    by blast+
  then have "get_waitlist (snd (handle_capacity_change 60 crowded_world ?ev 2)) ''e1'' None = [erin\<lparr>position := 1\<rparr>]
      \<and> mset (get_participants (snd (handle_capacity_change 60 crowded_world ?ev 2)) ''e1'')
          = {#alice, bob, promoted carol, promoted dave#}
      \<and> current_participants (fst (handle_capacity_change 60 crowded_world ?ev 2)) = 4"
    unfolding r m c by blast
  with h1 h2 h3 j wl show ?thesis by blast
qed

section \<open>Capacity decrease\<close>

lemma filter_replace_in_split:
  "distinct (map pid ds) \<Longrightarrow> p \<in> set ds \<Longrightarrow> \<not> P p \<Longrightarrow> P p' \<Longrightarrow>
   \<exists>as bs. filter P ds = as @ bs
         \<and> filter P (map (\<lambda>d. if pid d = pid p then p' else d) ds) = as @ [p'] @ bs"
proof (induction ds)
  case Nil
  then show ?case by simp
next
  case (Cons a ds)
  show ?case
  proof (cases "a = p")
    case True
    have "pid p \<notin> pid ` set ds" using Cons.prems(1) True by simp
    then have "map (\<lambda>d. if pid d = pid p then p' else d) ds = ds"
      by (intro map_idI) (auto simp: image_iff)
    then have "filter P (a # ds) = [] @ filter P ds
        \<and> filter P (map (\<lambda>d. if pid d = pid p then p' else d) (a # ds)) = [] @ [p'] @ filter P ds"
      using True Cons.prems by simp
    then show ?thesis by blast
  next
    case False
    then have pin: "p \<in> set ds" using Cons.prems(2) by simp
    have "pid a \<notin> pid ` set ds" using Cons.prems(1) by simp
    with pin have ne: "pid a \<noteq> pid p" by (metis imageI)
    have "distinct (map pid ds)" using Cons.prems(1) by simp
    from Cons.IH[OF this pin Cons.prems(3,4)]
    obtain as bs where ab: "filter P ds = as @ bs"
      "filter P (map (\<lambda>d. if pid d = pid p then p' else d) ds) = as @ [p'] @ bs" by blast
    show ?thesis
    proof (cases "P a")
      case True
      then have "filter P (a # ds) = (a # as) @ bs
        \<and> filter P (map (\<lambda>d. if pid d = pid p then p' else d) (a # ds)) = (a # as) @ [p'] @ bs"
        using ab ne by simp
      then show ?thesis by blast
    next
      case False
      then have "filter P (a # ds) = as @ bs
        \<and> filter P (map (\<lambda>d. if pid d = pid p then p' else d) (a # ds)) = as @ [p'] @ bs"
        using ab ne by simp
      then show ?thesis by blast
    qed
  qed
qed

lemma sort_key_append_last:
  assumes "xs = as @ [x] @ bs" and "\<And>y. y \<in> set (as @ bs) \<Longrightarrow> f y < f x"
  shows "sort_key f xs = sort_key f (as @ bs) @ [x]"
proof (rule properties_for_sort_key)
  show "mset (sort_key f (as @ bs) @ [x]) = mset xs" using assms(1) by simp
  show "sorted (map f (sort_key f (as @ bs) @ [x]))"
    using assms(2) by (auto simp: sorted_append less_imp_le)
  fix k assume k: "k \<in> set (sort_key f (as @ bs) @ [x])"
  show "filter (\<lambda>y. f k = f y) (sort_key f (as @ bs) @ [x]) = filter (\<lambda>y. f k = f y) xs"
  proof (cases "f k = f x")
    case True
    then have "\<And>y. y \<in> set (as @ bs) \<Longrightarrow> f k \<noteq> f y" using assms(2) by force
    then have "filter (\<lambda>y. f k = f y) (as @ bs) = []" "filter (\<lambda>y. f k = f y) as = []"
      "filter (\<lambda>y. f k = f y) bs = []"
      by (auto simp: filter_empty_conv)
    moreover have "filter (\<lambda>y. f k = f y) (sort_key f (as @ bs)) = filter (\<lambda>y. f k = f y) (as @ bs)"
      using sort_key_stable[of f "f k" "as @ bs"] by (simp add: eq_commute)
    ultimately show ?thesis using True assms(1) by simp
  next
    case False
    have "filter (\<lambda>y. f k = f y) (sort_key f (as @ bs)) = filter (\<lambda>y. f k = f y) (as @ bs)"
      using sort_key_stable[of f "f k" "as @ bs"] by (simp add: eq_commute)
    then show ?thesis using False assms(1) by simp
  qed
qed

lemma demote_one:
  assumes h1: "distinct (map pid (participants w))"
    and h2: "one_record_per_user w"
    and din: "d \<in> set (get_participants w i)"
  shows "fst (demote_to_waitlist now w i (user_id d))"
    and "get_participants (snd (demote_to_waitlist now w i (user_id d))) i
           = filter (\<lambda>q. pid q \<noteq> pid d) (get_participants w i)"
    and "mset (get_waitlist (snd (demote_to_waitlist now w i (user_id d))) i None)
           = add_mset (demoted (int (length (get_waitlist w i None)) + 1) d) (mset (get_waitlist w i None))"
    and "(\<And>q. q \<in> set (get_waitlist w i None) \<Longrightarrow> position q \<le> int (length (get_waitlist w i None)))
         \<Longrightarrow> get_waitlist (snd (demote_to_waitlist now w i (user_id d))) i None
           = get_waitlist w i None @ [demoted (int (length (get_waitlist w i None)) + 1) d]"
    and "distinct (map pid (participants (snd (demote_to_waitlist now w i (user_id d)))))"
    and "one_record_per_user (snd (demote_to_waitlist now w i (user_id d)))"
proof -
  let ?ds = "participants w"
  let ?W = "get_waitlist w i None"
  let ?d' = "d\<lparr>pstatus := WAITLIST, position := int (length ?W) + 1\<rparr>"
  let ?ds1 = "map (\<lambda>x. if pid x = pid d then ?d' else x) ?ds"
  let ?w1 = "w\<lparr>participants := ?ds1, writes := writes w @ [Updated ''participants'' (pid d)]\<rparr>"
  let ?w2 = "snd (decrement_participant_count now ?w1 i)"
  have pin: "d \<in> set ?ds" and pj: "on_joined i d" using din by (auto simp: set_get_participants)
  have ev: "event_id d = i" and st: "pstatus d = JOINED" using pj by (auto simp: on_joined_def)
  have bu: "get_participant_by_user w i (user_id d) = Some d"
    using get_participant_by_user_unique[OF h2 pin] ev by simp
  have up: "update_participant w ?d' = Some ?w1"
    using update_participant_present[OF pin, of ?d'] by simp
  have res: "demote_to_waitlist now w i (user_id d) = (True, ?w2)"
    by (simp add: demote_to_waitlist_def bu st up Let_def)
  have s2: "snd (demote_to_waitlist now w i (user_id d)) = ?w2" by (simp add: res)
  have p2: "participants ?w2 = ?ds1" by simp
  have dd: "demoted (int (length ?W) + 1) d = ?d'" by (simp add: demoted_def)
  show "fst (demote_to_waitlist now w i (user_id d))" by (simp add: res)
  have "filter (on_joined i) ?ds1 = filter (\<lambda>x. pid x \<noteq> pid d) (filter (on_joined i) ?ds)"
    by (rule filter_replace_out) (simp add: on_joined_def)
  then show "get_participants (snd (demote_to_waitlist now w i (user_id d))) i
           = filter (\<lambda>q. pid q \<noteq> pid d) (get_participants w i)"
    unfolding s2 by (simp add: get_participants_eq filter_sort)
  have nw: "\<not> on_waitlist i d" "on_waitlist i ?d'" using st ev by (simp_all add: on_waitlist_def)
  have "mset (filter (on_waitlist i) ?ds1) = add_mset ?d' (mset (filter (on_waitlist i) ?ds))"
    using h1 pin nw by (rule mset_filter_replace_in)
  then show "mset (get_waitlist (snd (demote_to_waitlist now w i (user_id d))) i None)
           = add_mset (demoted (int (length ?W) + 1) d) (mset ?W)"
    unfolding s2 dd by (simp add: get_waitlist_None)
  show "get_waitlist (snd (demote_to_waitlist now w i (user_id d))) i None
           = ?W @ [demoted (int (length ?W) + 1) d]"
    if bound: "\<And>q. q \<in> set ?W \<Longrightarrow> position q \<le> int (length ?W)"
  proof -
    from filter_replace_in_split[OF h1 pin nw]
    obtain as bs where ab: "filter (on_waitlist i) ?ds = as @ bs"
      "filter (on_waitlist i) ?ds1 = as @ [?d'] @ bs" by blast
    have lt: "\<And>y. y \<in> set (as @ bs) \<Longrightarrow> position y < position ?d'"
    proof -
      fix y assume "y \<in> set (as @ bs)"
      then have "y \<in> set ?W" using ab(1) by (simp add: get_waitlist_None)
      from bound[OF this] show "position y < position ?d'" by simp
    qed
    from sort_key_append_last[of "filter (on_waitlist i) ?ds1" as ?d' bs position, OF ab(2) lt]
    have "sort_key position (filter (on_waitlist i) ?ds1)
            = sort_key position (filter (on_waitlist i) ?ds) @ [?d']"
      by (simp only: ab(1))
    then show ?thesis unfolding s2 dd by (simp add: get_waitlist_None)
  qed
  have "map pid ?ds1 = map pid ?ds" by (rule pids_replace) simp
  then show "distinct (map pid (participants (snd (demote_to_waitlist now w i (user_id d)))))"
    unfolding s2 p2 using h1 by (simp only:)
  have "map (\<lambda>q. (event_id q, user_id q)) ?ds1 = map (\<lambda>q. (event_id q, user_id q)) ?ds"
    using h1 pin by (intro keys_replace) simp_all
  then show "one_record_per_user (snd (demote_to_waitlist now w i (user_id d)))"
    unfolding s2 one_record_per_user_def p2 using h2[unfolded one_record_per_user_def] by (simp only:)
qed

lemma demoted_from_Nil [simp]: "demoted_from n [] = []"
  by (simp add: demoted_from_def)

lemma demoted_from_Cons [simp]: "demoted_from n (d # ds) = demoted n d # demoted_from (n + 1) ds"
  by (simp add: demoted_from_def)

lemma demote_loop_result:
  assumes "distinct (map pid (participants w))" and "one_record_per_user w"
    and "distinct (map pid D)" and "set D \<subseteq> set (get_participants w i)"
  shows "get_participants (demote_loop now w i (map user_id D)) i
           = filter (\<lambda>q. pid q \<notin> pid ` set D) (get_participants w i)
       \<and> mset (get_waitlist (demote_loop now w i (map user_id D)) i None)
           = mset (get_waitlist w i None)
             + mset (demoted_from (int (length (get_waitlist w i None)) + 1) D)
       \<and> ((\<forall>q \<in> set (get_waitlist w i None). position q \<le> int (length (get_waitlist w i None))) \<longrightarrow>
            get_waitlist (demote_loop now w i (map user_id D)) i None
              = get_waitlist w i None @ demoted_from (int (length (get_waitlist w i None)) + 1) D)
       \<and> distinct (map pid (participants (demote_loop now w i (map user_id D))))
       \<and> one_record_per_user (demote_loop now w i (map user_id D))"
  using assms
proof (induction D arbitrary: w)
  case Nil
  then show ?case by simp
next
  case (Cons d D)
  let ?J = "get_participants w i"
  let ?W = "get_waitlist w i None"
  let ?w1 = "snd (demote_to_waitlist now w i (user_id d))"
  let ?d' = "demoted (int (length ?W) + 1) d"
  let ?w' = "demote_loop now ?w1 i (map user_id D)"
  have din: "d \<in> set ?J" using Cons.prems(4) by simp
  note d1 = demote_one[OF Cons.prems(1,2) din, of now]
  have dD: "distinct (map pid D)" and nd: "pid d \<notin> pid ` set D" using Cons.prems(3) by simp_all
  have sub: "set D \<subseteq> set (get_participants ?w1 i)"
  proof
    fix q assume q: "q \<in> set D"
    then have "q \<in> set ?J" using Cons.prems(4) by auto
    moreover have "pid q \<noteq> pid d" using q nd by (metis imageI)
    ultimately show "q \<in> set (get_participants ?w1 i)" by (simp add: d1(2))
  qed
  have len1: "length (get_waitlist ?w1 i None) = length ?W + 1"
  proof -
    have "size (mset (get_waitlist ?w1 i None)) = size (add_mset ?d' (mset ?W))"
      using d1(3) by (simp only:)
    then show ?thesis by simp
  qed
  have n1: "int (length (get_waitlist ?w1 i None)) + 1 = int (length ?W) + 1 + 1"
    using len1 by simp
  note ih = Cons.IH[OF d1(5) d1(6) dD sub, unfolded n1]
  have loop: "demote_loop now w i (map user_id (d # D)) = ?w'" by simp
  have a: "get_participants ?w' i = filter (\<lambda>q. pid q \<notin> pid ` set (d # D)) ?J"
  proof -
    have "get_participants ?w' i = filter (\<lambda>q. pid q \<notin> pid ` set D) (get_participants ?w1 i)"
      using ih by blast
    also have "\<dots> = filter (\<lambda>q. pid q \<notin> pid ` set D) (filter (\<lambda>q. pid q \<noteq> pid d) ?J)"
      by (simp only: d1(2))
    also have "\<dots> = filter (\<lambda>q. pid q \<notin> pid ` set (d # D)) ?J"
      by (auto intro: filter_cong)
    finally show ?thesis .
  qed
  have b: "mset (get_waitlist ?w' i None) = mset ?W + mset (demoted_from (int (length ?W) + 1) (d # D))"
  proof -
    have "mset (get_waitlist ?w' i None)
            = mset (get_waitlist ?w1 i None) + mset (demoted_from (int (length ?W) + 1 + 1) D)"
      using ih by blast
    then show ?thesis by (simp add: d1(3))
  qed
  have c: "(\<forall>q \<in> set ?W. position q \<le> int (length ?W)) \<longrightarrow>
            get_waitlist ?w' i None = ?W @ demoted_from (int (length ?W) + 1) (d # D)"
  proof
    assume bound: "\<forall>q \<in> set ?W. position q \<le> int (length ?W)"
    then have w1: "get_waitlist ?w1 i None = ?W @ [?d']" by (intro d1(4)) simp
    have "\<forall>q \<in> set (get_waitlist ?w1 i None). position q \<le> int (length (get_waitlist ?w1 i None))"
      unfolding w1 using bound by (auto simp: demoted_def)
    with ih have "get_waitlist ?w' i None
        = get_waitlist ?w1 i None @ demoted_from (int (length ?W) + 1 + 1) D" by blast
    then show "get_waitlist ?w' i None = ?W @ demoted_from (int (length ?W) + 1) (d # D)"
      by (simp add: w1)
  qed
  have e: "distinct (map pid (participants ?w'))" "one_record_per_user ?w'" using ih by blast+
  show ?case unfolding loop using a b c e by blast
qed

lemma distinct_pid_sort: "distinct (map pid xs) \<Longrightarrow> distinct (map pid (sort_key f xs))"
proof -
  assume "distinct (map pid xs)"
  moreover have "mset (map pid (sort_key f xs)) = mset (map pid xs)" by simp
  ultimately show ?thesis by (metis mset_eq_imp_distinct_iff)
qed

lemma distinct_pid_participants:
  "distinct (map pid (participants w)) \<Longrightarrow> distinct (map pid (get_participants w i))"
  by (simp add: get_participants_eq distinct_pid_sort_filter)

lemma latest_split:
  assumes "distinct (map pid xs)"
  shows "filter (\<lambda>q. pid q \<notin> pid ` set (take n xs)) xs = drop n xs"
proof -
  have "distinct (map pid (take n xs @ drop n xs))" using assms by simp
  then have disj: "pid ` set (take n xs) \<inter> pid ` set (drop n xs) = {}"
    by (simp only: map_append distinct_append set_map)
  have a: "filter (\<lambda>q. pid q \<notin> pid ` set (take n xs)) (take n xs) = []"
    by (simp add: filter_empty_conv)
  have b: "filter (\<lambda>q. pid q \<notin> pid ` set (take n xs)) (drop n xs) = drop n xs"
    using disj by (auto simp: filter_id_conv)
  have "filter (\<lambda>q. pid q \<notin> pid ` set (take n xs)) (take n xs @ drop n xs) = drop n xs"
    by (simp only: filter_append a b append_Nil)
  then show ?thesis by simp
qed

lemma sorted_joined_at_reverse_mset [simp]: "mset (sorted_joined_at_reverse xs) = mset xs"
  by (simp add: sorted_joined_at_reverse_def)

lemma sorted_joined_at_reverse_length [simp]: "length (sorted_joined_at_reverse xs) = length xs"
  by (simp add: sorted_joined_at_reverse_def)

lemma latest_before_rest:
  assumes "d \<in> set (take n (sorted_joined_at_reverse xs))"
    and "r \<in> set (drop n (sorted_joined_at_reverse xs))"
  shows "joined_at r \<le> joined_at d"
proof -
  let ?ys = "sorted_joined_at_reverse xs"
  have "sorted (map (\<lambda>p. - joined_at p) (take n ?ys @ drop n ?ys))"
    by (simp add: sorted_joined_at_reverse_def)
  then have "\<forall>x \<in> set (map (\<lambda>p. - joined_at p) (take n ?ys)).
             \<forall>y \<in> set (map (\<lambda>p. - joined_at p) (drop n ?ys)). x \<le> y"
    by (simp only: map_append sorted_append) blast
  with assms have "- joined_at d \<le> - joined_at r" by simp
  then show ?thesis by simp
qed

lemma remaining_after_latest:
  assumes "distinct (map pid xs)"
  shows "mset (filter (\<lambda>q. pid q \<notin> pid ` set (take n (sorted_joined_at_reverse xs))) xs)
           = mset (drop n (sorted_joined_at_reverse xs))"
proof -
  let ?ys = "sorted_joined_at_reverse xs"
  let ?P = "\<lambda>q. pid q \<notin> pid ` set (take n ?ys)"
  have d: "distinct (map pid ?ys)"
    using assms by (simp add: sorted_joined_at_reverse_def distinct_pid_sort)
  have "mset (filter ?P xs) = filter_mset ?P (mset xs)" by simp
  also have "\<dots> = filter_mset ?P (mset ?ys)" by simp
  also have "\<dots> = mset (filter ?P ?ys)" by simp
  also have "\<dots> = mset (drop n ?ys)" by (simp only: latest_split[OF d])
  finally show ?thesis .
qed

text \<open>
  C4. In a store with distinct document ids and one record per user and event, a capacity
  decrease to a new maximum (not negative) below the joined count demotes exactly
  excess = joined count - new\_max records: the first excess of the joined records sorted
  by join time descending, processed in that order. The records left joined are the
  others, new\_max of them, and none of them joined later than a demoted one. The k-th
  record processed becomes WAITLIST with position waitlist length + k, the length of the
  waitlist at that moment plus one; when no old position exceeds the old length, the new
  waitlist is the old one followed by the demoted records in processing order.
\<close>

theorem capacity_decrease_demotes_latest:
  assumes "distinct (map pid (participants w))" and "one_record_per_user w"
    and "max_participants event < old_max"
    and "max_participants event < int (length (get_participants w (eid event)))"
    and "0 \<le> max_participants event"
  shows "(let i = eid event;
              joined = get_participants w i;
              waitlist = get_waitlist w i None;
              excess = nat (int (length joined) - max_participants event);
              latest = take excess (sorted_joined_at_reverse joined);
              (event', w') = handle_capacity_change now w event old_max
          in length latest = excess
           \<and> w' = demote_loop now w i (map user_id latest)
           \<and> get_participants w' i = filter (\<lambda>q. pid q \<notin> pid ` set latest) joined
           \<and> int (length (get_participants w' i)) = max_participants event
           \<and> mset (get_waitlist w' i None)
                = mset waitlist + mset (demoted_from (int (length waitlist) + 1) latest)
           \<and> ((\<forall>q \<in> set waitlist. position q \<le> int (length waitlist)) \<longrightarrow>
                 get_waitlist w' i None = waitlist @ demoted_from (int (length waitlist) + 1) latest)
           \<and> (\<forall>d \<in> set latest. \<forall>r \<in> set (get_participants w' i). joined_at r \<le> joined_at d)
           \<and> current_participants event' = max_participants event)"
proof -
  let ?i = "eid event"
  let ?J = "get_participants w ?i"
  let ?W = "get_waitlist w ?i None"
  define ex where "ex = nat (int (length ?J) - max_participants event)"
  define D where "D = take ex (sorted_joined_at_reverse ?J)"
  let ?w' = "demote_loop now w ?i (map user_id D)"
  have exl: "ex \<le> length ?J" "0 < ex" "int (length ?J) - int ex = max_participants event"
    using assms(4,5) by (auto simp: ex_def)
  have lenD: "length D = ex" using exl(1) by (simp add: D_def)
  have h: "handle_capacity_change now w event old_max
         = (event\<lparr>current_participants := int (length (get_participants ?w' ?i))\<rparr>, ?w')"
    using assms(3,4) by (simp add: handle_capacity_change_def Let_def D_def ex_def)
  have dJ: "distinct (map pid ?J)" using assms(1) by (rule distinct_pid_participants)
  have dD: "distinct (map pid D)"
  proof -
    have "distinct (map pid (sorted_joined_at_reverse ?J))"
      using dJ by (simp add: sorted_joined_at_reverse_def distinct_pid_sort)
    then have "distinct (take ex (map pid (sorted_joined_at_reverse ?J)))" by (rule distinct_take)
    then show ?thesis by (simp add: D_def take_map)
  qed
  have sub: "set D \<subseteq> set ?J"
  proof -
    have "set D \<subseteq> set (sorted_joined_at_reverse ?J)" unfolding D_def by (rule set_take_subset)
    moreover have "set (sorted_joined_at_reverse ?J) = set ?J"
      by (simp add: sorted_joined_at_reverse_def)
    ultimately show ?thesis by simp
  qed
  note r = demote_loop_result[OF assms(1,2) dD sub, of now]
  have a: "get_participants ?w' ?i = filter (\<lambda>q. pid q \<notin> pid ` set D) ?J" using r by blast
  have b: "mset (get_waitlist ?w' ?i None) = mset ?W + mset (demoted_from (int (length ?W) + 1) D)"
    using r by blast
  have c: "(\<forall>q \<in> set ?W. position q \<le> int (length ?W)) \<longrightarrow>
             get_waitlist ?w' ?i None = ?W @ demoted_from (int (length ?W) + 1) D"
    using r by blast
  have "mset (filter (\<lambda>q. pid q \<notin> pid ` set D) ?J) = mset (drop ex (sorted_joined_at_reverse ?J))"
    unfolding D_def using dJ by (rule remaining_after_latest)
  then have rem: "mset (get_participants ?w' ?i) = mset (drop ex (sorted_joined_at_reverse ?J))"
    by (simp only: a)
  have "size (mset (get_participants ?w' ?i)) = size (mset (drop ex (sorted_joined_at_reverse ?J)))"
    using rem by (simp only:)
  then have len: "int (length (get_participants ?w' ?i)) = max_participants event"
    using exl by simp
  have "set (get_participants ?w' ?i) = set (drop ex (sorted_joined_at_reverse ?J))"
    using rem by (rule mset_eq_setD)
  then have ord: "\<forall>d \<in> set D. \<forall>r \<in> set (get_participants ?w' ?i). joined_at r \<le> joined_at d"
    unfolding D_def using latest_before_rest[of _ ex ?J] by blast
  have ev: "current_participants (event\<lparr>current_participants := int (length (get_participants ?w' ?i))\<rparr>)
              = max_participants event" using len by simp
  show ?thesis
    unfolding Let_def h prod.case ex_def[symmetric] D_def[symmetric]
    using lenD a b c len ord ev by blast
qed

theorem capacity_decrease_demotes_latest_witness:
  "distinct (map pid (participants trio_world))
   \<and> one_record_per_user trio_world
   \<and> max_participants (game_night\<lparr>max_participants := 2, current_participants := 3, status := FULL\<rparr>) < 3
   \<and> get_participants trio_world ''e1'' = [alice, bob, promoted carol]
   \<and> get_waitlist trio_world ''e1'' None = [dave\<lparr>position := 1\<rparr>]
   \<and> get_participants
         (snd (handle_capacity_change 60 trio_world
                 (game_night\<lparr>max_participants := 2, current_participants := 3, status := FULL\<rparr>) 3))
         ''e1'' = [alice, bob]
   \<and> get_waitlist
         (snd (handle_capacity_change 60 trio_world
                 (game_night\<lparr>max_participants := 2, current_participants := 3, status := FULL\<rparr>) 3))
         ''e1'' None = [dave\<lparr>position := 1\<rparr>, carol\<lparr>position := 2\<rparr>]
   \<and> current_participants
         (fst (handle_capacity_change 60 trio_world
                 (game_night\<lparr>max_participants := 2, current_participants := 3, status := FULL\<rparr>) 3)) = 2"
proof -
  let ?ev = "game_night\<lparr>max_participants := 2, current_participants := 3, status := FULL\<rparr>"
  have e: "eid ?ev = ''e1''" "max_participants ?ev = 2"
    by (simp_all add: fixture_defs)
  have h1: "distinct (map pid (participants trio_world))"
    by (simp add: trio_world_def promoted_def fixture_defs)
  have h2: "one_record_per_user trio_world"
    by (simp add: one_record_per_user_def trio_world_def promoted_def fixture_defs)
  have h3: "max_participants ?ev < 3" by (simp add: e)
  have j: "get_participants trio_world ''e1'' = [alice, bob, promoted carol]"
    by (simp add: get_participants_def query_documents_def trio_world_def promoted_def fixture_defs)
  have wl: "get_waitlist trio_world ''e1'' None = [dave\<lparr>position := 1\<rparr>]"
    by (simp add: get_waitlist_def query_documents_def trio_world_def promoted_def fixture_defs)
  have h4: "max_participants ?ev < int (length (get_participants trio_world (eid ?ev)))"
    by (simp add: e j)
  have h5: "0 \<le> max_participants ?ev" by (simp add: e)
  have n1: "nat (int (length [alice, bob, promoted carol]) - 2) = 1" by simp
  have sr: "take 1 (sorted_joined_at_reverse [alice, bob, promoted carol]) = [promoted carol]"
    by (simp add: sorted_joined_at_reverse_def promoted_def fixture_defs)
  note t = capacity_decrease_demotes_latest[OF h1 h2 h3 h4 h5, of 60,
      unfolded Let_def case_prod_beta e j wl n1 sr]
  let ?w' = "snd (handle_capacity_change 60 trio_world ?ev 3)"
  have f: "filter (\<lambda>q. pid q \<notin> pid ` set [promoted carol]) [alice, bob, promoted carol] = [alice, bob]"
    by (simp add: promoted_def fixture_defs)
  have b: "\<forall>q \<in> set [dave\<lparr>position := 1\<rparr>]. position q \<le> int (length [dave\<lparr>position := 1\<rparr>])"
    by simp
  have d: "[dave\<lparr>position := 1\<rparr>] @ demoted_from (int (length [dave\<lparr>position := 1\<rparr>]) + 1) [promoted carol]
         = [dave\<lparr>position := 1\<rparr>, carol\<lparr>position := 2\<rparr>]"
    by (simp add: demoted_def promoted_def fixture_defs)
  from t have "get_participants ?w' ''e1''
                 = filter (\<lambda>q. pid q \<notin> pid ` set [promoted carol]) [alice, bob, promoted carol]"
    by blast
  then have c1: "get_participants ?w' ''e1'' = [alice, bob]" by (simp only: f)
  from t b have "get_waitlist ?w' ''e1'' None
     = [dave\<lparr>position := 1\<rparr>] @ demoted_from (int (length [dave\<lparr>position := 1\<rparr>]) + 1) [promoted carol]"
    by blast
  then have c2: "get_waitlist ?w' ''e1'' None = [dave\<lparr>position := 1\<rparr>, carol\<lparr>position := 2\<rparr>]"
    by (simp only: d)
  from t have c3: "current_participants (fst (handle_capacity_change 60 trio_world ?ev 3)) = 2"
    by blast
  from h1 h2 h3 j wl c1 c2 c3 show ?thesis by blast
qed

end
